theory Spec2Isabelle
  imports Main "HOL-Library.Word"
begin

unbundle bit_operations_syntax

section \<open>Audio steganography backend: a shallow embedding of \<^verbatim>\<open>backend/app/app.py\<close>\<close>

text \<open>
  The program hides a passcode-protected message in the least-significant bits of the
  sample bytes of a WAV file. Python \<^verbatim>\<open>bytes\<close> are lists of 8-bit words, Python
  integers are \<^typ>\<open>int\<close>, a Python \<^verbatim>\<open>str\<close> is the list of its code points, and every
  \<^verbatim>\<open>raise\<close> is a value \<open>Inl e\<close> of the result type \<open>exn + 'a\<close>.
\<close>

subsection \<open>Data and exceptions\<close>

type_synonym byte = "8 word"
type_synonym bytes = "byte list"
type_synonym str = "nat list"

text \<open>
  The exceptions the program raises or meets. \<open>HTTPException status detail\<close> is FastAPI's;
  \<open>UnicodeEncodeError\<close> and \<open>UnicodeDecodeError\<close> are subclasses of \<open>ValueError\<close> in
  Python, which matters for the handler of \<^verbatim>\<open>extract\<close>; \<open>StructError\<close> is
  \<^verbatim>\<open>struct.error\<close>; \<open>InvalidToken\<close> is the one of \<^verbatim>\<open>cryptography.fernet\<close>.
\<close>

datatype exn =
    HTTPException nat string
  | ValueError string
  | UnicodeEncodeError
  | UnicodeDecodeError
  | InvalidToken
  | StructError
  | IndexError

text \<open>\<^verbatim>\<open>isinstance(e, ValueError)\<close>.\<close>

fun isinstance_ValueError :: "exn \<Rightarrow> bool" where
  "isinstance_ValueError (ValueError _) = True"
| "isinstance_ValueError UnicodeEncodeError = True"
| "isinstance_ValueError UnicodeDecodeError = True"
| "isinstance_ValueError _ = False"

text \<open>\<^verbatim>\<open>MAGIC = b"STEG"\<close>, \<^verbatim>\<open>SALT_LEN = 16\<close>, \<^verbatim>\<open>PBKDF2_ITERS = 390_000\<close>.\<close>

definition MAGIC :: bytes where
  "MAGIC = [0x53, 0x54, 0x45, 0x47]"

definition SALT_LEN :: nat where
  "SALT_LEN = 16"

definition PBKDF2_ITERS :: nat where
  "PBKDF2_ITERS = 390000"

subsection \<open>Bytes to bits and back\<close>

text \<open>
  \<^verbatim>\<open>_bytes_to_bits\<close>: for each byte, \<^verbatim>\<open>for i in range(7, -1, -1): bits.append((byte >> i) & 1)\<close>.
\<close>

definition byte_bits :: "byte \<Rightarrow> int list" where
  "byte_bits byte = map (\<lambda>i. drop_bit i (uint byte) AND 1) (rev [0..<8])"

primrec bytes_to_bits :: "bytes \<Rightarrow> int list" where
  "bytes_to_bits [] = []"
| "bytes_to_bits (byte # data) = byte_bits byte @ bytes_to_bits data"

text \<open>
  The inner loop of \<^verbatim>\<open>_bits_to_bytes\<close>: \<^verbatim>\<open>byte = 0; for b in bits[i : i + 8]: byte = (byte << 1) | b\<close>.
\<close>

definition bits_byte :: "int list \<Rightarrow> int" where
  "bits_byte bs = foldl (\<lambda>byte b. push_bit 1 byte OR b) 0 bs"

text \<open>
  Storing an integer into a \<^verbatim>\<open>bytearray\<close> (\<^verbatim>\<open>out.append(byte)\<close>,
  \<^verbatim>\<open>frame_array[i] = v\<close>) raises \<open>ValueError\<close> outside \<open>range(256)\<close>.
\<close>

definition bytearray_item :: "int \<Rightarrow> exn + byte" where
  "bytearray_item v =
     (if 0 \<le> v \<and> v < 256 then Inr (word_of_int v)
      else Inl (ValueError ''byte must be in range(0, 256)''))"

text \<open>The outer loop of \<^verbatim>\<open>_bits_to_bytes\<close>, \<^verbatim>\<open>for i in range(0, len(bits), 8)\<close>.\<close>

function bits_to_bytes_loop :: "int list \<Rightarrow> exn + bytes" where
  "bits_to_bytes_loop bits =
     (if bits = [] then Inr []
      else (case bytearray_item (bits_byte (take 8 bits)) of
              Inl e \<Rightarrow> Inl e
            | Inr byte \<Rightarrow>
                (case bits_to_bytes_loop (drop 8 bits) of
                   Inl e \<Rightarrow> Inl e
                 | Inr out \<Rightarrow> Inr (byte # out))))"
  by pat_completeness auto
termination
  by (relation "measure length") auto

declare bits_to_bytes_loop.simps [simp del]

definition bits_to_bytes :: "int list \<Rightarrow> exn + bytes" where
  "bits_to_bytes bits =
     (if length bits mod 8 \<noteq> 0 then Inl (ValueError ''Bit length must be multiple of 8'')
      else bits_to_bytes_loop bits)"

subsection \<open>The length prefix\<close>

text \<open>
  \<^verbatim>\<open>struct.pack(">I", n)\<close>: four bytes, big-endian; \<^verbatim>\<open>struct.error\<close> when \<open>n\<close> does not
  fit in 32 bits. \<^verbatim>\<open>struct.unpack(">I", bs)[0]\<close> wants exactly four bytes.
\<close>

definition struct_pack_I :: "nat \<Rightarrow> exn + bytes" where
  "struct_pack_I n =
     (if n < 2 ^ 32
      then Inr [of_nat (n div 2 ^ 24), of_nat (n div 2 ^ 16), of_nat (n div 2 ^ 8), of_nat n]
      else Inl StructError)"

definition struct_unpack_I :: "bytes \<Rightarrow> exn + nat" where
  "struct_unpack_I bs =
     (case bs of
        [b0, b1, b2, b3] \<Rightarrow> Inr (((unat b0 * 256 + unat b1) * 256 + unat b2) * 256 + unat b3)
      | _ \<Rightarrow> Inl StructError)"

subsection \<open>Embedding and extracting a payload\<close>

text \<open>
  The loop of \<^verbatim>\<open>_embed_payload\<close>:
  \<^verbatim>\<open>for i, bit in enumerate(bits): frame_array[i] = (frame_array[i] & 0xFE) | bit\<close>.
  Reading \<^verbatim>\<open>frame_array[i]\<close> past the end raises \<open>IndexError\<close>.
\<close>

fun embed_loop :: "nat \<Rightarrow> int list \<Rightarrow> bytes \<Rightarrow> exn + bytes" where
  "embed_loop i [] frame_array = Inr frame_array"
| "embed_loop i (b # bits) frame_array =
     (if i < length frame_array
      then (case bytearray_item ((uint (frame_array ! i) AND 0xFE) OR b) of
              Inl e \<Rightarrow> Inl e
            | Inr v \<Rightarrow> embed_loop (Suc i) bits (frame_array[i := v]))
      else Inl IndexError)"

text \<open>\<^verbatim>\<open>_embed_payload(frames, payload)\<close>.\<close>

definition embed_payload :: "bytes \<Rightarrow> bytes \<Rightarrow> exn + bytes" where
  "embed_payload frames payload =
     (case struct_pack_I (length payload) of
        Inl e \<Rightarrow> Inl e
      | Inr length_prefix \<Rightarrow>
          (let data = length_prefix @ payload;
               bits = bytes_to_bits data
           in if length bits > length frames
              then Inl (HTTPException 400 ''Audio too small for payload'')
              else embed_loop 0 bits frames))"

text \<open>
  \<^verbatim>\<open>[(frames[i] & 1) for i in range(lo, hi)]\<close>. Both uses in \<^verbatim>\<open>_extract_payload\<close> come
  after a check that \<open>hi\<close> is at most the number of samples, so no index is out of range.
\<close>

definition lsb_bits :: "bytes \<Rightarrow> nat \<Rightarrow> nat \<Rightarrow> int list" where
  "lsb_bits frames lo hi = map (\<lambda>i. uint (frames ! i) AND 1) [lo..<hi]"

text \<open>\<^verbatim>\<open>_extract_payload(frames)\<close>.\<close>

definition extract_payload :: "bytes \<Rightarrow> exn + bytes" where
  "extract_payload frames =
     (if length frames < 32 then Inl (HTTPException 400 ''Audio too short'')
      else (case bits_to_bytes (lsb_bits frames 0 32) of
              Inl e \<Rightarrow> Inl e
            | Inr length_bytes \<Rightarrow>
                (case struct_unpack_I length_bytes of
                   Inl e \<Rightarrow> Inl e
                 | Inr len \<Rightarrow>
                     (let total_bits = len * 8
                      in if 32 + total_bits > length frames
                         then Inl (HTTPException 400 ''Corrupted or incomplete data'')
                         else bits_to_bytes (lsb_bits frames 32 (32 + total_bits))))))"

text \<open>
  The byte the embedding loop stores for a sample \<open>x\<close> and a bit \<open>b\<close>, as a word.
\<close>

definition set_lsb :: "byte \<Rightarrow> int \<Rightarrow> byte" where
  "set_lsb x b = word_of_int ((uint x AND 0xFE) OR b)"

text \<open>The value of a bit list read most-significant bit first.\<close>

definition be_val :: "int list \<Rightarrow> int" where
  "be_val bs = foldl (\<lambda>a b. 2 * a + b) 0 bs"

subsection \<open>Python strings\<close>

text \<open>
  \<^verbatim>\<open>str.isspace\<close> for one code point: the characters \<^verbatim>\<open>str.strip()\<close> removes.
\<close>

definition isspace :: "nat \<Rightarrow> bool" where
  "isspace c =
     ((0x09 \<le> c \<and> c \<le> 0x0D) \<or> (0x1C \<le> c \<and> c \<le> 0x20) \<or> c = 0x85 \<or> c = 0xA0 \<or>
      c = 0x1680 \<or> (0x2000 \<le> c \<and> c \<le> 0x200A) \<or> c = 0x2028 \<or> c = 0x2029 \<or>
      c = 0x202F \<or> c = 0x205F \<or> c = 0x3000)"

text \<open>\<^verbatim>\<open>s.strip()\<close>.\<close>

definition strip :: "str \<Rightarrow> str" where
  "strip s = rev (dropWhile isspace (rev (dropWhile isspace s)))"

text \<open>
  \<^verbatim>\<open>s.encode("utf-8")\<close>: \<open>UnicodeEncodeError\<close> on a surrogate; a Python string has no
  code point above \<open>0x10FFFF\<close>.
\<close>

definition utf8_encode_char :: "nat \<Rightarrow> exn + bytes" where
  "utf8_encode_char c =
     (if c < 0x80 then Inr [of_nat c]
      else if c < 0x800 then Inr [of_nat (0xC0 + c div 64), of_nat (0x80 + c mod 64)]
      else if 0xD800 \<le> c \<and> c \<le> 0xDFFF then Inl UnicodeEncodeError
      else if c < 0x10000
        then Inr [of_nat (0xE0 + c div 4096), of_nat (0x80 + c div 64 mod 64), of_nat (0x80 + c mod 64)]
      else if c < 0x110000
        then Inr [of_nat (0xF0 + c div 262144), of_nat (0x80 + c div 4096 mod 64),
                  of_nat (0x80 + c div 64 mod 64), of_nat (0x80 + c mod 64)]
      else Inl UnicodeEncodeError)"

fun utf8_encode :: "str \<Rightarrow> exn + bytes" where
  "utf8_encode [] = Inr []"
| "utf8_encode (c # s) =
     (case utf8_encode_char c of
        Inl e \<Rightarrow> Inl e
      | Inr bs \<Rightarrow> (case utf8_encode s of Inl e \<Rightarrow> Inl e | Inr rest \<Rightarrow> Inr (bs @ rest)))"

text \<open>
  \<^verbatim>\<open>bs.decode("utf-8")\<close>, strict: \<open>UnicodeDecodeError\<close> on a stray or missing continuation
  byte, an overlong form, a surrogate, or a value above \<open>0x10FFFF\<close>.
\<close>

definition continuation :: "byte \<Rightarrow> bool" where
  "continuation b = (0x80 \<le> unat b \<and> unat b \<le> 0xBF)"

definition second_of_3 :: "nat \<Rightarrow> nat \<Rightarrow> bool" where
  "second_of_3 n0 n1 =
     (if n0 = 0xE0 then 0xA0 \<le> n1 \<and> n1 \<le> 0xBF
      else if n0 = 0xED then 0x80 \<le> n1 \<and> n1 \<le> 0x9F
      else 0x80 \<le> n1 \<and> n1 \<le> 0xBF)"

definition second_of_4 :: "nat \<Rightarrow> nat \<Rightarrow> bool" where
  "second_of_4 n0 n1 =
     (if n0 = 0xF0 then 0x90 \<le> n1 \<and> n1 \<le> 0xBF
      else if n0 = 0xF4 then 0x80 \<le> n1 \<and> n1 \<le> 0x8F
      else 0x80 \<le> n1 \<and> n1 \<le> 0xBF)"

text \<open>The first character of a byte string and the bytes after it, if it is well-formed.\<close>

definition utf8_next :: "bytes \<Rightarrow> (nat \<times> bytes) option" where
  "utf8_next bs =
     (case bs of
        [] \<Rightarrow> None
      | b0 # t \<Rightarrow>
          if unat b0 < 0x80 then Some (unat b0, t)
          else if 0xC2 \<le> unat b0 \<and> unat b0 \<le> 0xDF then
            (case t of
               b1 # r \<Rightarrow>
                 if continuation b1
                 then Some ((unat b0 - 0xC0) * 64 + (unat b1 - 0x80), r)
                 else None
             | _ \<Rightarrow> None)
          else if 0xE0 \<le> unat b0 \<and> unat b0 \<le> 0xEF then
            (case t of
               b1 # b2 # r \<Rightarrow>
                 if second_of_3 (unat b0) (unat b1) \<and> continuation b2
                 then Some (((unat b0 - 0xE0) * 64 + (unat b1 - 0x80)) * 64 + (unat b2 - 0x80), r)
                 else None
             | _ \<Rightarrow> None)
          else if 0xF0 \<le> unat b0 \<and> unat b0 \<le> 0xF4 then
            (case t of
               b1 # b2 # b3 # r \<Rightarrow>
                 if second_of_4 (unat b0) (unat b1) \<and> continuation b2 \<and> continuation b3
                 then Some ((((unat b0 - 0xF0) * 64 + (unat b1 - 0x80)) * 64 + (unat b2 - 0x80)) * 64
                            + (unat b3 - 0x80), r)
                 else None
             | _ \<Rightarrow> None)
          else None)"

lemma utf8_next_shorter: "utf8_next bs = Some (c, r) \<Longrightarrow> length r < length bs"
  unfolding utf8_next_def
  by (simp split: list.splits if_splits) auto

function utf8_decode :: "bytes \<Rightarrow> exn + str" where
  "utf8_decode bs =
     (if bs = [] then Inr []
      else (case utf8_next bs of
              None \<Rightarrow> Inl UnicodeDecodeError
            | Some (c, r) \<Rightarrow>
                (case utf8_decode r of
                   Inl e \<Rightarrow> Inl e
                 | Inr s \<Rightarrow> Inr (c # s))))"
  by pat_completeness auto
termination
  by (relation "measure length") (auto dest: utf8_next_shorter)

declare utf8_decode.simps [simp del]

subsection \<open>The libraries the program calls\<close>

text \<open>
  The \<^verbatim>\<open>cryptography\<close> package, \<^verbatim>\<open>base64\<close> and \<^verbatim>\<open>os.urandom\<close> are not part of the
  program: the model takes them as a parameter. \<open>'f\<close> is the type of a \<^verbatim>\<open>Fernet\<close> object.
  \<^item> \<open>os_urandom n\<close>: the bytes \<^verbatim>\<open>os.urandom(n)\<close> returns in this run;
  \<^item> \<open>pbkdf2_hmac_sha256 length salt iterations password\<close>:
    \<^verbatim>\<open>PBKDF2HMAC(algorithm=hashes.SHA256(), length=..., salt=..., iterations=...).derive(password)\<close>;
  \<^item> \<open>urlsafe_b64encode\<close>: \<^verbatim>\<open>base64.urlsafe_b64encode\<close>;
  \<^item> \<open>Fernet key\<close>: the constructor, which raises \<open>ValueError\<close> on a malformed key;
  \<^item> \<open>fernet_encrypt f data\<close> and \<open>fernet_decrypt f token\<close>: \<^verbatim>\<open>f.encrypt(data)\<close> in this
    run (its initialisation vector and clock included) and \<^verbatim>\<open>f.decrypt(token)\<close>, which
    raises \<open>InvalidToken\<close>.
\<close>

record 'f pylib =
  os_urandom :: "nat \<Rightarrow> bytes"
  pbkdf2_hmac_sha256 :: "nat \<Rightarrow> bytes \<Rightarrow> nat \<Rightarrow> bytes \<Rightarrow> bytes"
  urlsafe_b64encode :: "bytes \<Rightarrow> bytes"
  Fernet :: "bytes \<Rightarrow> exn + 'f"
  fernet_encrypt :: "'f \<Rightarrow> bytes \<Rightarrow> exn + bytes"
  fernet_decrypt :: "'f \<Rightarrow> bytes \<Rightarrow> exn + bytes"

subsection \<open>Key derivation\<close>

text \<open>\<^verbatim>\<open>derive_key(passcode, salt)\<close>.\<close>

definition derive_key :: "'f pylib \<Rightarrow> str \<Rightarrow> bytes \<Rightarrow> exn + bytes" where
  "derive_key L passcode salt =
     (if passcode = [] then Inl (ValueError ''Passcode is required'')
      else (case utf8_encode passcode of
              Inl e \<Rightarrow> Inl e
            | Inr password \<Rightarrow>
                Inr (urlsafe_b64encode L (pbkdf2_hmac_sha256 L 32 salt PBKDF2_ITERS password))))"

subsection \<open>The two operations\<close>

text \<open>
  The handler \<^verbatim>\<open>embed(audio, message, passcode)\<close>, from the frames \<^verbatim>\<open>_read_wave\<close> returns
  to the frames handed to \<^verbatim>\<open>_write_wave\<close>; reading and writing the WAV container are
  outside the model.
\<close>

definition embed :: "'f pylib \<Rightarrow> bytes \<Rightarrow> str \<Rightarrow> str \<Rightarrow> exn + bytes" where
  "embed L frames message passcode =
     (if strip message = [] then Inl (HTTPException 400 ''Message is required'')
      else (let salt = os_urandom L SALT_LEN in
            case derive_key L passcode salt of
              Inl e \<Rightarrow> Inl e
            | Inr key \<Rightarrow>
                (case Fernet L key of
                   Inl e \<Rightarrow> Inl e
                 | Inr f \<Rightarrow>
                     (case utf8_encode message of
                        Inl e \<Rightarrow> Inl e
                      | Inr plaintext \<Rightarrow>
                          (case fernet_encrypt L f plaintext of
                             Inl e \<Rightarrow> Inl e
                           | Inr token \<Rightarrow>
                               (let payload = MAGIC @ salt @ token
                                in embed_payload frames payload))))))"

text \<open>\<^verbatim>\<open>payload.startswith(prefix)\<close> and the slice \<^verbatim>\<open>xs[lo : hi]\<close> for \<open>lo \<le> hi\<close>.\<close>

definition startswith :: "bytes \<Rightarrow> bytes \<Rightarrow> bool" where
  "startswith xs p = (take (length p) xs = p)"

definition slice :: "bytes \<Rightarrow> nat \<Rightarrow> nat \<Rightarrow> bytes" where
  "slice xs lo hi = take (hi - lo) (drop lo xs)"

text \<open>
  The marker check and the two slices of \<^verbatim>\<open>extract\<close> (the specification's
  \<^verbatim>\<open>unframe\<close>): \<^verbatim>\<open>salt = payload[len(MAGIC) : len(MAGIC) + SALT_LEN]\<close>,
  \<^verbatim>\<open>token = payload[len(MAGIC) + SALT_LEN :]\<close>.
\<close>

definition unframe :: "bytes \<Rightarrow> exn + (bytes \<times> bytes)" where
  "unframe payload =
     (if \<not> startswith payload MAGIC then Inl (HTTPException 400 ''No hidden payload found'')
      else Inr (slice payload (length MAGIC) (length MAGIC + SALT_LEN),
                drop (length MAGIC + SALT_LEN) payload))"

text \<open>The body of the \<^verbatim>\<open>try\<close> block of \<^verbatim>\<open>extract\<close>.\<close>

definition decrypt_message :: "'f pylib \<Rightarrow> str \<Rightarrow> bytes \<Rightarrow> bytes \<Rightarrow> exn + str" where
  "decrypt_message L passcode salt token =
     (case derive_key L passcode salt of
        Inl e \<Rightarrow> Inl e
      | Inr key \<Rightarrow>
          (case Fernet L key of
             Inl e \<Rightarrow> Inl e
           | Inr f \<Rightarrow>
               (case fernet_decrypt L f token of
                  Inl e \<Rightarrow> Inl e
                | Inr plaintext \<Rightarrow> utf8_decode plaintext)))"

text \<open>
  The handler \<^verbatim>\<open>extract(audio, passcode)\<close>, from the frames on;
  \<^verbatim>\<open>except (InvalidToken, ValueError)\<close> catches every subclass of \<open>ValueError\<close> too.
  (The name \<open>extract\<close> is a command of Isabelle/HOL, hence \<open>extract_message\<close>.)
\<close>

definition extract_message :: "'f pylib \<Rightarrow> bytes \<Rightarrow> str \<Rightarrow> exn + str" where
  "extract_message L frames passcode =
     (case extract_payload frames of
        Inl e \<Rightarrow> Inl e
      | Inr payload \<Rightarrow>
          (case unframe payload of
             Inl e \<Rightarrow> Inl e
           | Inr (salt, token) \<Rightarrow>
               (case decrypt_message L passcode salt token of
                  Inl e \<Rightarrow>
                    if e = InvalidToken \<or> isinstance_ValueError e
                    then Inl (HTTPException 400 ''Invalid passcode or payload'')
                    else Inl e
                | Inr message \<Rightarrow> Inr message)))"

subsection \<open>The error kinds of the specification\<close>

text \<open>
  The specification names five kinds of failure and says which failure of the program is
  of which kind: an empty message or passcode and a malformed bit length are
  \<open>InvalidInput\<close>; a buffer too small for the payload or shorter than the length prefix is
  \<open>CapacityError\<close>; a declared length beyond the buffer is \<open>CorruptionError\<close>; a missing
  marker is \<open>FormatError\<close> ("no hidden payload present"); a failed decryption is
  \<open>AuthenticationError\<close> ("invalid passcode or corrupted payload").
\<close>

datatype error_kind = InvalidInput | CapacityError | CorruptionError | FormatError | AuthenticationError

definition spec_error_kind :: "exn \<Rightarrow> error_kind option" where
  "spec_error_kind e =
     (case e of
        HTTPException status detail \<Rightarrow>
          (if detail = ''Message is required'' then Some InvalidInput
           else if detail = ''Audio too small for payload'' then Some CapacityError
           else if detail = ''Audio too short'' then Some CapacityError
           else if detail = ''Corrupted or incomplete data'' then Some CorruptionError
           else if detail = ''No hidden payload found'' then Some FormatError
           else if detail = ''Invalid passcode or payload'' then Some AuthenticationError
           else None)
      | ValueError detail \<Rightarrow>
          (if detail = ''Passcode is required'' \<or> detail = ''Bit length must be multiple of 8''
           then Some InvalidInput else None)
      | _ \<Rightarrow> None)"

subsection \<open>A stand-in for the libraries\<close>

text \<open>
  To evaluate the model on concrete inputs the library parameter needs a value. This one is
  not cryptography: its key derivation pads the password and the salt to the requested
  length, its encoding is the identity, and its token is the plaintext behind one check byte
  computed from the key. It keeps the contract of the real library that the theorems below
  assume: 16 random bytes are 16 bytes, a derived key is accepted by the constructor, and
  decryption returns the plaintext of a token made under the same key and raises
  \<open>InvalidToken\<close> otherwise.
\<close>

definition ex_check :: "bytes \<Rightarrow> byte" where
  "ex_check key = fold (+) key 0x5A"

definition ex_lib :: "bytes pylib" where
  "ex_lib = \<lparr>
     os_urandom = (\<lambda>n. replicate n 0x2A),
     pbkdf2_hmac_sha256 = (\<lambda>length salt iterations password.
        take length (password @ salt @ replicate length 0)),
     urlsafe_b64encode = (\<lambda>bs. bs),
     Fernet = (\<lambda>key. if length key = 32 then Inr key
        else Inl (ValueError ''Fernet key must be 32 url-safe base64-encoded bytes.'')),
     fernet_encrypt = (\<lambda>f data. Inr (ex_check f # data)),
     fernet_decrypt = (\<lambda>f token.
        case token of
          [] \<Rightarrow> Inl InvalidToken
        | c # data \<Rightarrow> if c = ex_check f then Inr data else Inl InvalidToken)
   \<rparr>"

subsection \<open>The extraction as the specification words it\<close>

text \<open>
  The specification describes \<^verbatim>\<open>_extract_payload\<close> by the values it reads: the
  least-significant bit of a sample, the big-endian value of a sequence of bits, the length
  \<open>L\<close> read from the first 32 samples, and byte \<open>j\<close> of the payload read from the eight
  samples from \<open>32 + 8 * j\<close> on. These definitions follow those words; the theorem of claim
  C4 compares them with the function translated from the source.
\<close>

definition lsb :: "byte \<Rightarrow> nat" where
  "lsb x = unat x mod 2"

definition be_nat :: "nat list \<Rightarrow> nat" where
  "be_nat bs = (\<Sum>i<length bs. bs ! i * 2 ^ (length bs - 1 - i))"

definition spec_length :: "bytes \<Rightarrow> nat" where
  "spec_length frames = be_nat (map lsb (take 32 frames))"

definition spec_byte :: "bytes \<Rightarrow> nat \<Rightarrow> byte" where
  "spec_byte frames j = of_nat (be_nat (map lsb (take 8 (drop (32 + 8 * j) frames))))"

definition spec_extract :: "bytes \<Rightarrow> exn + bytes" where
  "spec_extract frames =
     (if length frames < 32 then Inl (HTTPException 400 ''Audio too short'')
      else if 32 + 8 * spec_length frames > length frames
        then Inl (HTTPException 400 ''Corrupted or incomplete data'')
        else Inr (map (spec_byte frames) [0..<spec_length frames]))"

subsection \<open>A small example buffer\<close>

text \<open>
  Forty-two sample bytes, and what \<^verbatim>\<open>_embed_payload\<close> makes of them for the one-byte
  payload \<^verbatim>\<open>b"A"\<close>: forty bits are used, the last two bytes are beyond the used prefix.
\<close>

definition ex_frames :: bytes where
  "ex_frames = [0xFF, 0xFF, 0xFF, 0xFF, 0xFF, 0xFF, 0xFF, 0xFF, 0xFF, 0xFF,
                0xFF, 0xFF, 0xFF, 0xFF, 0xFF, 0xFF, 0xFF, 0xFF, 0xFF, 0xFF,
                0, 0, 0, 0, 0, 0, 0, 0, 0, 0, 0, 0, 0, 0, 0, 0, 0, 0, 0, 0, 7, 8]"

definition ex_stego :: bytes where
  "ex_stego = [0xFE, 0xFE, 0xFE, 0xFE, 0xFE, 0xFE, 0xFE, 0xFE, 0xFE, 0xFE,
               0xFE, 0xFE, 0xFE, 0xFE, 0xFE, 0xFE, 0xFE, 0xFE, 0xFE, 0xFE,
               0, 0, 0, 0, 0, 0, 0, 0, 0, 0, 0, 1, 0, 1, 0, 0, 0, 0, 0, 1, 7, 8]"

subsection \<open>Example payloads and buffers\<close>

text \<open>
  For the stand-in library, the passcode \<^verbatim>\<open>"pw"\<close> and the salt of sixteen bytes \<open>0x2A\<close>
  give the key \<open>ex_key\<close>, whose check byte is \<open>0xE1\<close>. \<open>ex_payload_hi\<close> frames the token
  of the message \<^verbatim>\<open>"HI"\<close>; \<open>ex_payload_bad\<close> frames a token whose plaintext is the single
  byte \<open>0xFF\<close>, which is not UTF-8. \<open>ex_stego_hi\<close> and \<open>ex_stego_bad\<close> are silent buffers
  (all samples zero) with the length prefix and the payload embedded.
\<close>

definition ex_salt :: bytes where
  "ex_salt = [0x2A, 0x2A, 0x2A, 0x2A, 0x2A, 0x2A, 0x2A, 0x2A, 0x2A, 0x2A, 0x2A, 0x2A, 0x2A, 0x2A, 0x2A, 0x2A]"

definition ex_key :: bytes where
  "ex_key = [0x70, 0x77] @ ex_salt @ [0, 0, 0, 0, 0, 0, 0, 0, 0, 0, 0, 0, 0, 0]"

definition ex_payload_hi :: bytes where
  "ex_payload_hi = [0x53, 0x54, 0x45, 0x47,
     0x2A, 0x2A, 0x2A, 0x2A, 0x2A, 0x2A, 0x2A, 0x2A, 0x2A, 0x2A, 0x2A, 0x2A, 0x2A, 0x2A, 0x2A, 0x2A,
     0xE1, 0x48, 0x49]"

definition ex_stego_hi :: bytes where
  "ex_stego_hi =
    [0, 0, 0, 0, 0, 0, 0, 0, 0, 0, 0, 0, 0, 0, 0, 0, 0, 0, 0, 0, 0, 0, 0, 0, 0, 0, 0, 1, 0, 1, 1, 1,
     0, 1, 0, 1, 0, 0, 1, 1, 0, 1, 0, 1, 0, 1, 0, 0, 0, 1, 0, 0, 0, 1, 0, 1, 0, 1, 0, 0, 0, 1, 1, 1,
     0, 0, 1, 0, 1, 0, 1, 0, 0, 0, 1, 0, 1, 0, 1, 0, 0, 0, 1, 0, 1, 0, 1, 0, 0, 0, 1, 0, 1, 0, 1, 0,
     0, 0, 1, 0, 1, 0, 1, 0, 0, 0, 1, 0, 1, 0, 1, 0, 0, 0, 1, 0, 1, 0, 1, 0, 0, 0, 1, 0, 1, 0, 1, 0,
     0, 0, 1, 0, 1, 0, 1, 0, 0, 0, 1, 0, 1, 0, 1, 0, 0, 0, 1, 0, 1, 0, 1, 0, 0, 0, 1, 0, 1, 0, 1, 0,
     0, 0, 1, 0, 1, 0, 1, 0, 0, 0, 1, 0, 1, 0, 1, 0, 0, 0, 1, 0, 1, 0, 1, 0, 0, 0, 1, 0, 1, 0, 1, 0,
     1, 1, 1, 0, 0, 0, 0, 1, 0, 1, 0, 0, 1, 0, 0, 0, 0, 1, 0, 0, 1, 0, 0, 1, 0, 0, 0, 0]"

definition ex_payload_bad :: bytes where
  "ex_payload_bad = [0x53, 0x54, 0x45, 0x47,
     0x2A, 0x2A, 0x2A, 0x2A, 0x2A, 0x2A, 0x2A, 0x2A, 0x2A, 0x2A, 0x2A, 0x2A, 0x2A, 0x2A, 0x2A, 0x2A,
     0xE1, 0xFF]"

definition ex_stego_bad :: bytes where
  "ex_stego_bad =
    [0, 0, 0, 0, 0, 0, 0, 0, 0, 0, 0, 0, 0, 0, 0, 0, 0, 0, 0, 0, 0, 0, 0, 0, 0, 0, 0, 1, 0, 1, 1, 0,
     0, 1, 0, 1, 0, 0, 1, 1, 0, 1, 0, 1, 0, 1, 0, 0, 0, 1, 0, 0, 0, 1, 0, 1, 0, 1, 0, 0, 0, 1, 1, 1,
     0, 0, 1, 0, 1, 0, 1, 0, 0, 0, 1, 0, 1, 0, 1, 0, 0, 0, 1, 0, 1, 0, 1, 0, 0, 0, 1, 0, 1, 0, 1, 0,
     0, 0, 1, 0, 1, 0, 1, 0, 0, 0, 1, 0, 1, 0, 1, 0, 0, 0, 1, 0, 1, 0, 1, 0, 0, 0, 1, 0, 1, 0, 1, 0,
     0, 0, 1, 0, 1, 0, 1, 0, 0, 0, 1, 0, 1, 0, 1, 0, 0, 0, 1, 0, 1, 0, 1, 0, 0, 0, 1, 0, 1, 0, 1, 0,
     0, 0, 1, 0, 1, 0, 1, 0, 0, 0, 1, 0, 1, 0, 1, 0, 0, 0, 1, 0, 1, 0, 1, 0, 0, 0, 1, 0, 1, 0, 1, 0,
     1, 1, 1, 0, 0, 0, 0, 1, 1, 1, 1, 1, 1, 1, 1, 1, 0, 0]"

section \<open>Bits of a byte\<close>

lemma byte_bits_01: "b \<in> set (byte_bits x) \<Longrightarrow> b = 0 \<or> b = 1"
  by (auto simp: byte_bits_def and_one_eq)

lemma length_byte_bits: "length (byte_bits x) = 8"
  by (simp add: byte_bits_def)

lemma length_bytes_to_bits: "length (bytes_to_bits d) = 8 * length d"
  by (induction d) (simp_all add: length_byte_bits)

lemma bytes_to_bits_01: "b \<in> set (bytes_to_bits d) \<Longrightarrow> b = 0 \<or> b = 1"
  by (induction d) (auto dest: byte_bits_01)

lemma bytes_to_bits_append: "bytes_to_bits (a @ b) = bytes_to_bits a @ bytes_to_bits b"
  by (induction a) simp_all

lemma shift_or_bit: "b = 0 \<or> b = 1 \<Longrightarrow> (a::int) * 2 OR b = 2 * a + b"
  by (auto simp: or_one_eq)

lemma foldl_shift_or:
  "\<forall>b \<in> set bs. b = 0 \<or> b = 1 \<Longrightarrow>
   foldl (\<lambda>byte b. push_bit 1 byte OR b) (a::int) bs = foldl (\<lambda>a b. 2 * a + b) a bs"
  by (induction bs arbitrary: a) (simp_all add: shift_or_bit)

lemma bits_byte_be_val: "\<forall>b \<in> set bs. b = 0 \<or> b = 1 \<Longrightarrow> bits_byte bs = be_val bs"
  unfolding bits_byte_def be_val_def by (rule foldl_shift_or)

lemma be_val_rev_horner: "be_val (rev xs) = horner_sum id 2 xs"
  by (simp add: be_val_def horner_sum_foldr foldr_conv_foldl add.commute)

lemma be_val_byte_bits: "be_val (byte_bits x) = uint x"
proof -
  have "byte_bits x = rev (map (\<lambda>i. of_bool (bit (uint x) i)) [0..<8])"
    by (simp add: byte_bits_def rev_map and_one_eq bit_iff_odd_drop_bit mod_2_eq_odd)
  then have "be_val (byte_bits x) = horner_sum of_bool 2 (map (bit (uint x)) [0..<8])"
    by (simp add: be_val_rev_horner horner_sum_foldr foldr_map comp_def)
  also have "\<dots> = take_bit 8 (uint x)"
    by (rule horner_sum_bit_eq_take_bit)
  also have "\<dots> = uint x"
    by (simp add: bintr_uint)
  finally show ?thesis .
qed

lemma bits_byte_byte_bits: "bits_byte (byte_bits x) = uint x"
  using byte_bits_01 by (simp add: bits_byte_be_val be_val_byte_bits)

lemma bytearray_item_uint: "bytearray_item (uint (x::byte)) = Inr x"
proof -
  have "uint x < 256" using uint_bounded [of x] by simp
  then show ?thesis by (simp add: bytearray_item_def)
qed

lemma bits_to_bytes_loop_bytes_to_bits: "bits_to_bytes_loop (bytes_to_bits d) = Inr d"
proof (induction d)
  case Nil
  show ?case by (simp add: bits_to_bytes_loop.simps)
next
  case (Cons x d)
  have "bytes_to_bits (x # d) \<noteq> []"
    using length_byte_bits [of x] by auto
  then show ?case
    by (subst bits_to_bytes_loop.simps)
       (simp add: length_byte_bits bits_byte_byte_bits bytearray_item_uint Cons)
qed

lemma bits_to_bytes_bytes_to_bits: "bits_to_bytes (bytes_to_bits d) = Inr d"
  by (simp add: bits_to_bytes_def length_bytes_to_bits bits_to_bytes_loop_bytes_to_bits)

section \<open>Overwriting the least-significant bit of a sample\<close>

lemma and_fe_even: "even ((k::int) AND 0xFE)"
  by (simp add: even_and_iff)

lemma and_fe_range: "0 \<le> (uint (x::byte) AND 0xFE) \<and> (uint x AND 0xFE) \<le> 254"
  by (simp add: AND_upper2)

lemma set_lsb_value:
  assumes "b = 0 \<or> b = 1"
  shows "(uint (x::byte) AND 0xFE) OR b = (uint x AND 0xFE) + b"
  using assms and_fe_even [of "uint x"] by (auto simp: or_one_eq)

lemma bytearray_item_set_lsb:
  assumes "b = 0 \<or> b = 1"
  shows "bytearray_item ((uint x AND 0xFE) OR b) = Inr (set_lsb x b)"
  using assms and_fe_range [of x]
  by (auto simp: bytearray_item_def set_lsb_def set_lsb_value)

lemma fe_push: "(0xFE::int) = push_bit 1 (mask 7)"
  by (simp add: mask_eq_exp_minus_1)

lemma uint_and_fe: "uint (x::byte) AND 0xFE = push_bit 1 (drop_bit 1 (uint x))"
proof (rule bit_eqI)
  fix n
  have "bit (uint x AND push_bit 1 (mask 7)) n = (1 \<le> n \<and> n < 8 \<and> bit x n)"
    by (simp only: bit_and_iff bit_push_bit_iff bit_mask_iff bit_uint_iff) auto
  moreover have "bit (push_bit 1 (drop_bit 1 (uint x)) :: int) n = (1 \<le> n \<and> n < 8 \<and> bit x n)"
    by (simp only: bit_push_bit_iff bit_drop_bit_eq) (auto simp: bit_uint_iff)
  ultimately show "bit (uint x AND 0xFE) n = bit (push_bit 1 (drop_bit 1 (uint x)) :: int) n"
    by (simp only: fe_push)
qed

lemma uint_set_lsb:
  assumes "b = 0 \<or> b = 1"
  shows "uint (set_lsb x b) = (uint x AND 0xFE) + b"
proof -
  define k where "k = (uint x AND 0xFE) + b"
  have "0 \<le> k" "k < 2 ^ 8"
    using assms and_fe_range [of x] by (auto simp: k_def)
  then have "take_bit 8 k = k"
    by (rule take_bit_int_eq_self)
  moreover have "uint (word_of_int k :: byte) = take_bit 8 k"
    by (simp only: uint_word_of_int_eq) simp
  moreover have "set_lsb x b = word_of_int k"
    by (simp only: set_lsb_def set_lsb_value [OF assms] k_def)
  ultimately show ?thesis
    by (simp only: k_def)
qed

lemma lsb_set_lsb:
  assumes "b = 0 \<or> b = 1"
  shows "uint (set_lsb x b) AND 1 = b"
  using assms and_fe_even [of "uint x"]
  by (auto simp: uint_set_lsb and_one_eq)

lemma drop_bit_set_lsb:
  assumes "b = 0 \<or> b = 1"
  shows "drop_bit 1 (set_lsb x b) = drop_bit 1 x"
proof -
  have "drop_bit 1 (uint (set_lsb x b)) = drop_bit 1 (uint x)"
    using assms by (auto simp: uint_set_lsb uint_and_fe drop_bit_eq_div)
  then have "uint (drop_bit 1 (set_lsb x b)) = uint (drop_bit 1 x)"
    by (simp only: drop_bit_eq_div uint_div_distrib) simp
  then show ?thesis by (rule word_uint_eqI)
qed

lemma bit_set_lsb:
  assumes "b = 0 \<or> b = 1" "0 < n"
  shows "bit (set_lsb x b) n = bit x n"
proof -
  from assms(2) obtain m where n: "n = Suc m" by (cases n) auto
  have "bit (set_lsb x b) n = bit (drop_bit 1 (set_lsb x b)) m"
    by (simp add: bit_drop_bit_eq n)
  also have "\<dots> = bit (drop_bit 1 x) m"
    by (simp only: drop_bit_set_lsb [OF assms(1)])
  also have "\<dots> = bit x n"
    by (simp add: bit_drop_bit_eq n)
  finally show ?thesis .
qed

section \<open>The embedding loop\<close>

lemma embed_loop_ok:
  assumes "\<forall>b \<in> set bits. b = 0 \<or> b = 1" and "i + length bits \<le> length fa"
  shows "\<exists>out. embed_loop i bits fa = Inr out \<and> length out = length fa \<and>
           (\<forall>j < length fa. out ! j =
              (if i \<le> j \<and> j < i + length bits then set_lsb (fa ! j) (bits ! (j - i)) else fa ! j))"
  using assms
proof (induction bits arbitrary: i fa)
  case Nil
  show ?case by auto
next
  case (Cons b bits)
  let ?fa = "fa[i := set_lsb (fa ! i) b]"
  have b01: "b = 0 \<or> b = 1" using Cons.prems(1) by simp
  have i: "i < length fa" using Cons.prems(2) by simp
  have step: "embed_loop i (b # bits) fa = embed_loop (Suc i) bits ?fa"
    using i by (simp add: bytearray_item_set_lsb [OF b01])
  have "\<forall>b \<in> set bits. b = 0 \<or> b = 1" using Cons.prems(1) by simp
  moreover have "Suc i + length bits \<le> length ?fa" using Cons.prems(2) by simp
  ultimately obtain out where out: "embed_loop (Suc i) bits ?fa = Inr out"
    "length out = length ?fa"
    "\<forall>j < length ?fa. out ! j =
        (if Suc i \<le> j \<and> j < Suc i + length bits then set_lsb (?fa ! j) (bits ! (j - Suc i)) else ?fa ! j)"
    using Cons.IH [of "Suc i" ?fa] by blast
  have "\<forall>j < length fa. out ! j =
      (if i \<le> j \<and> j < i + length (b # bits) then set_lsb (fa ! j) ((b # bits) ! (j - i)) else fa ! j)"
  proof (intro allI impI)
    fix j assume j: "j < length fa"
    show "out ! j =
      (if i \<le> j \<and> j < i + length (b # bits) then set_lsb (fa ! j) ((b # bits) ! (j - i)) else fa ! j)"
    proof (cases "j = i")
      case True
      then show ?thesis using out(3) j by simp
    next
      case False
      then show ?thesis using out(3) j by (auto simp: nth_Cons' Suc_diff_Suc)
    qed
  qed
  moreover have "embed_loop i (b # bits) fa = Inr out"
    using step out(1) by (simp only:)
  moreover have "length out = length fa"
    using out(2) by simp
  ultimately show ?case by blast
qed

section \<open>The length prefix round-trips\<close>

lemma be32_digits:
  assumes "n < 2 ^ 32"
  shows "((n div 16777216 mod 256 * 256 + n div 65536 mod 256) * 256 + n div 256 mod 256) * 256
          + n mod 256 = (n::nat)"
proof -
  have d3: "n div 16777216 < 256"
    using assms by (simp add: less_mult_imp_div_less)
  have e1: "n div 256 div 256 = n div 65536"
    by (simp add: div_mult2_eq [symmetric])
  have e2: "n div 65536 div 256 = n div 16777216"
    by (simp add: div_mult2_eq [symmetric])
  have s0: "n div 256 * 256 + n mod 256 = n"
    by (rule div_mult_mod_eq)
  have s1: "n div 65536 * 256 + n div 256 mod 256 = n div 256"
    using div_mult_mod_eq [of "n div 256" 256] by (simp only: e1)
  have s2: "n div 16777216 * 256 + n div 65536 mod 256 = n div 65536"
    using div_mult_mod_eq [of "n div 65536" 256] by (simp only: e2)
  show ?thesis
    using d3 by (simp only: mod_less s2 s1 s0)
qed

lemma struct_unpack_pack:
  assumes "n < 2 ^ 32"
  shows "\<exists>bs. struct_pack_I n = Inr bs \<and> length bs = 4 \<and> struct_unpack_I bs = Inr n"
proof -
  have "struct_pack_I n =
      Inr [of_nat (n div 16777216), of_nat (n div 65536), of_nat (n div 256), of_nat n]"
    using assms by (simp add: struct_pack_I_def)
  moreover have "struct_unpack_I
      [of_nat (n div 16777216), of_nat (n div 65536), of_nat (n div 256), of_nat n] = Inr n"
  proof -
    have "n div 16777216 < 256"
      using assms by (simp add: less_mult_imp_div_less)
    then have "n div 16777216 mod 256 = n div 16777216"
      by simp
    then show ?thesis
      using be32_digits [OF assms] by (simp add: struct_unpack_I_def unat_of_nat)
  qed
  ultimately show ?thesis by simp
qed

section \<open>Reading the embedded bits back\<close>

lemma lsb_bits_embedded:
  assumes out: "\<forall>j < length fa. out ! j =
              (if j < length bits then set_lsb (fa ! j) (bits ! j) else fa ! j)"
    and len: "length out = length fa"
    and bits: "\<forall>b \<in> set bits. b = 0 \<or> b = 1"
    and hi: "hi \<le> length bits" "length bits \<le> length fa"
  shows "lsb_bits out lo hi = take (hi - lo) (drop lo bits)"
proof (rule nth_equalityI)
  show "length (lsb_bits out lo hi) = length (take (hi - lo) (drop lo bits))"
    using hi by (simp add: lsb_bits_def)
next
  fix k assume "k < length (lsb_bits out lo hi)"
  then have k: "k < hi - lo" by (simp add: lsb_bits_def)
  then have j: "lo + k < length bits" "lo + k < length fa" using hi by auto
  then have "bits ! (lo + k) \<in> set bits" by simp
  then have b01: "bits ! (lo + k) = 0 \<or> bits ! (lo + k) = 1" using bits by blast
  have "out ! (lo + k) = set_lsb (fa ! (lo + k)) (bits ! (lo + k))"
    using out j by simp
  then have "uint (out ! (lo + k)) AND 1 = bits ! (lo + k)"
    by (simp only: lsb_set_lsb [OF b01])
  then show "lsb_bits out lo hi ! k = take (hi - lo) (drop lo bits) ! k"
    using k j by (simp add: lsb_bits_def)
qed

section \<open>What \<^verbatim>\<open>_embed_payload\<close> returns\<close>

lemma embed_payload_ok:
  assumes n: "length payload < 2 ^ 32"
    and cap: "8 * (4 + length payload) \<le> length frames"
  shows "\<exists>pre out. struct_pack_I (length payload) = Inr pre \<and> length pre = 4 \<and>
           struct_unpack_I pre = Inr (length payload) \<and>
           embed_payload frames payload = Inr out \<and> length out = length frames \<and>
           (\<forall>j < length frames. out ! j =
              (if j < 8 * (4 + length payload)
               then set_lsb (frames ! j) (bytes_to_bits (pre @ payload) ! j) else frames ! j))"
proof -
  obtain pre where pre: "struct_pack_I (length payload) = Inr pre" "length pre = 4"
      "struct_unpack_I pre = Inr (length payload)"
    using struct_unpack_pack [OF n] by blast
  let ?bits = "bytes_to_bits (pre @ payload)"
  have len: "length ?bits = 8 * (4 + length payload)"
    by (simp add: length_bytes_to_bits pre(2))
  have b01: "\<forall>b \<in> set ?bits. b = 0 \<or> b = 1"
    using bytes_to_bits_01 by blast
  have "0 + length ?bits \<le> length frames"
    using cap len by simp
  from embed_loop_ok [OF b01 this] obtain out where out:
    "embed_loop 0 ?bits frames = Inr out" "length out = length frames"
    "\<forall>j < length frames. out ! j =
        (if 0 \<le> j \<and> j < 0 + length ?bits then set_lsb (frames ! j) (?bits ! (j - 0)) else frames ! j)"
    by blast
  have "embed_payload frames payload = Inr out"
    using cap len out(1) by (simp add: embed_payload_def pre(1) Let_def)
  moreover have "\<forall>j < length frames. out ! j =
      (if j < 8 * (4 + length payload) then set_lsb (frames ! j) (?bits ! j) else frames ! j)"
    using out(3) len by simp
  ultimately show ?thesis
    using pre out(2) by blast
qed

lemma embed_payload_Inr:
  assumes "embed_payload frames payload = Inr out"
  shows "length payload < 2 ^ 32 \<and> 8 * (4 + length payload) \<le> length frames"
proof -
  have n: "length payload < 2 ^ 32"
    using assms by (auto simp: embed_payload_def struct_pack_I_def split: if_splits)
  then obtain pre where pre: "struct_pack_I (length payload) = Inr pre" "length pre = 4"
    using struct_unpack_pack by blast
  have "\<not> length (bytes_to_bits (pre @ payload)) > length frames"
    using assms by (auto simp: embed_payload_def pre(1) Let_def split: if_splits)
  then show ?thesis
    using n by (simp add: length_bytes_to_bits pre(2))
qed

lemma embed_payload_then_extract:
  assumes n: "length payload < 2 ^ 32"
    and cap: "8 * (4 + length payload) \<le> length frames"
  shows "\<exists>stego. embed_payload frames payload = Inr stego \<and> extract_payload stego = Inr payload"
proof -
  from embed_payload_ok [OF n cap] obtain pre out where
    pre: "length pre = 4" "struct_unpack_I pre = Inr (length payload)"
    and emb: "embed_payload frames payload = Inr out" and len: "length out = length frames"
    and out: "\<forall>j < length frames. out ! j =
              (if j < 8 * (4 + length payload)
               then set_lsb (frames ! j) (bytes_to_bits (pre @ payload) ! j) else frames ! j)"
    by blast
  let ?bits = "bytes_to_bits (pre @ payload)"
  have blen: "length ?bits = 8 * (4 + length payload)"
    by (simp add: length_bytes_to_bits pre(1))
  have b01: "\<forall>b \<in> set ?bits. b = 0 \<or> b = 1"
    using bytes_to_bits_01 by blast
  have out': "\<forall>j < length frames. out ! j =
              (if j < length ?bits then set_lsb (frames ! j) (?bits ! j) else frames ! j)"
    using out blen by simp
  have split: "?bits = bytes_to_bits pre @ bytes_to_bits payload"
    by (rule bytes_to_bits_append)
  have plen: "length (bytes_to_bits pre) = 32"
    by (simp add: length_bytes_to_bits pre(1))
  have "lsb_bits out 0 32 = take (32 - 0) (drop 0 ?bits)"
    using blen cap by (intro lsb_bits_embedded [OF out' len b01]) simp_all
  then have head: "lsb_bits out 0 32 = bytes_to_bits pre"
    using plen by (simp add: split)
  have "lsb_bits out 32 (32 + length payload * 8)
          = take (32 + length payload * 8 - 32) (drop 32 ?bits)"
    using blen cap by (intro lsb_bits_embedded [OF out' len b01]) simp_all
  then have tail: "lsb_bits out 32 (32 + length payload * 8) = bytes_to_bits payload"
    using plen by (simp add: split length_bytes_to_bits)
  have "extract_payload out = Inr payload"
    using cap len
    by (simp add: extract_payload_def head tail bits_to_bytes_bytes_to_bits pre(2) Let_def)
  then show ?thesis using emb by blast
qed

subsection \<open>Evaluating the example\<close>

lemma upt_0_8: "[0..<8] = [0, 1, 2, 3, 4, 5, 6, 7]"
  by (simp add: upt_rec)

lemma byte_bits_unfold:
  "byte_bits x = [drop_bit 7 (uint x) AND 1, drop_bit 6 (uint x) AND 1, drop_bit 5 (uint x) AND 1,
     drop_bit 4 (uint x) AND 1, drop_bit 3 (uint x) AND 1, drop_bit 2 (uint x) AND 1,
     drop_bit 1 (uint x) AND 1, uint x AND 1]"
  by (simp add: byte_bits_def upt_0_8)

lemma ex_embed: "embed_payload ex_frames [0x41] = Inr ex_stego"
  by (simp add: embed_payload_def ex_frames_def ex_stego_def struct_pack_I_def byte_bits_unfold
      bytearray_item_def)

section \<open>Decoding bits read from the samples\<close>

lemma be_val_snoc: "be_val (xs @ [x]) = 2 * be_val xs + x"
  by (simp add: be_val_def)

lemma be_nat_snoc: "be_nat (xs @ [x]) = 2 * be_nat xs + x"
proof -
  have "(\<Sum>i<length xs. (xs @ [x]) ! i * 2 ^ (length xs - i))
        = (\<Sum>i<length xs. 2 * (xs ! i * 2 ^ (length xs - 1 - i)))"
  proof (rule sum.cong)
    fix i assume "i \<in> {..<length xs}"
    then have i: "i < length xs" by simp
    then have "length xs - i = Suc (length xs - 1 - i)" by simp
    then show "(xs @ [x]) ! i * 2 ^ (length xs - i) = 2 * (xs ! i * 2 ^ (length xs - 1 - i))"
      using i by (simp add: nth_append)
  qed simp
  then show ?thesis
    by (simp add: be_nat_def sum_distrib_left)
qed

lemma be_val_be_nat: "be_val (map int ns) = int (be_nat ns)"
proof (induction ns rule: rev_induct)
  case Nil
  show ?case by (simp add: be_val_def be_nat_def)
next
  case (snoc x xs)
  then show ?case by (simp add: be_val_snoc be_nat_snoc)
qed

lemma be_val_append: "be_val (xs @ ys) = be_val xs * 2 ^ length ys + be_val ys"
proof (induction ys rule: rev_induct)
  case Nil
  show ?case by (simp add: be_val_def)
next
  case (snoc y ys)
  have "be_val (xs @ ys @ [y]) = 2 * be_val (xs @ ys) + y"
    using be_val_snoc [of "xs @ ys" y] by simp
  then show ?case
    using snoc by (simp add: be_val_snoc algebra_simps)
qed

lemma be_val_bounds:
  "\<forall>b \<in> set bs. b = 0 \<or> b = 1 \<Longrightarrow> 0 \<le> be_val bs \<and> be_val bs < 2 ^ length bs"
proof (induction bs rule: rev_induct)
  case Nil
  show ?case by (simp add: be_val_def)
next
  case (snoc x xs)
  then have "0 \<le> be_val xs \<and> be_val xs < 2 ^ length xs" and "x = 0 \<or> x = 1"
    by simp_all
  then show ?case
    by (auto simp: be_val_snoc)
qed

lemma uint_and_1_lsb: "uint (x::byte) AND 1 = int (lsb x)"
  by (simp add: and_one_eq lsb_def zmod_int)

lemma lsb_bits_map:
  assumes "hi \<le> length frames"
  shows "lsb_bits frames lo hi = map (\<lambda>x. int (lsb x)) (take (hi - lo) (drop lo frames))"
proof (rule nth_equalityI)
  show "length (lsb_bits frames lo hi) = length (map (\<lambda>x. int (lsb x)) (take (hi - lo) (drop lo frames)))"
    using assms by (simp add: lsb_bits_def)
next
  fix k assume "k < length (lsb_bits frames lo hi)"
  then have "k < hi - lo" by (simp add: lsb_bits_def)
  then show "lsb_bits frames lo hi ! k = map (\<lambda>x. int (lsb x)) (take (hi - lo) (drop lo frames)) ! k"
    using assms by (simp add: lsb_bits_def uint_and_1_lsb)
qed

lemma bits_to_bytes_loop_chunks:
  assumes "\<forall>b \<in> set bits. b = 0 \<or> b = 1" and "length bits = 8 * n"
  shows "bits_to_bytes_loop bits =
           Inr (map (\<lambda>j. word_of_int (be_val (take 8 (drop (8 * j) bits)))) [0..<n])"
  using assms
proof (induction n arbitrary: bits)
  case 0
  then show ?case by (simp add: bits_to_bytes_loop.simps)
next
  case (Suc n)
  have ne: "bits \<noteq> []" using Suc.prems(2) by auto
  have h01: "\<forall>b \<in> set (take 8 bits). b = 0 \<or> b = 1"
    using Suc.prems(1) by (meson in_set_takeD)
  have t01: "\<forall>b \<in> set (drop 8 bits). b = 0 \<or> b = 1"
    using Suc.prems(1) by (meson in_set_dropD)
  have "length (take 8 bits) = 8" using Suc.prems(2) by simp
  then have "0 \<le> be_val (take 8 bits) \<and> be_val (take 8 bits) < 256"
    using be_val_bounds [OF h01] by simp
  then have item: "bytearray_item (bits_byte (take 8 bits)) = Inr (word_of_int (be_val (take 8 bits)))"
    by (simp add: bytearray_item_def bits_byte_be_val [OF h01])
  have "length (drop 8 bits) = 8 * n" using Suc.prems(2) by simp
  from Suc.IH [OF t01 this]
  have rest: "bits_to_bytes_loop (drop 8 bits) =
      Inr (map (\<lambda>j. word_of_int (be_val (take 8 (drop (8 * Suc j) bits)))) [0..<n])"
    by (simp add: add.commute)
  have "map (\<lambda>j. word_of_int (be_val (take 8 (drop (8 * j) bits))) :: byte) [0..<Suc n]
      = word_of_int (be_val (take 8 bits)) #
        map (\<lambda>j. word_of_int (be_val (take 8 (drop (8 * Suc j) bits)))) [0..<n]"
    by (simp only: upt_conv_Cons [OF zero_less_Suc] list.map map_Suc_upt [symmetric] map_map comp_def)
       simp
  then show ?case
    using ne by (subst bits_to_bytes_loop.simps) (simp only: item rest, simp)
qed

lemma upt_0_4: "[0..<4] = [0, 1, 2, 3]"
  by (simp add: upt_rec)

lemma lsb_01: "int (lsb x) = 0 \<or> int (lsb x) = 1"
  by (auto simp: lsb_def)

lemma lsb_map_01: "\<forall>b \<in> set (map (\<lambda>x. int (lsb x)) xs). b = 0 \<or> b = 1"
  using lsb_01 by auto

lemma uint_word_of_int_byte:
  assumes "0 \<le> v \<and> v < 256"
  shows "uint (word_of_int v :: byte) = v"
proof -
  have "take_bit 8 v = v"
    using assms by (intro take_bit_int_eq_self) simp_all
  then show ?thesis
    by (simp add: uint_word_of_int_eq)
qed

lemma take_32_split:
  "take (8 + (8 + (8 + 8))) (bits::int list) =
     take 8 bits @ take 8 (drop 8 bits) @ take 8 (drop 16 bits) @ take 8 (drop 24 bits)"
  by (simp only: take_add drop_drop) simp

lemma unpack_prefix:
  assumes b01: "\<forall>b \<in> set bits. b = 0 \<or> b = 1" and len: "length bits = 32"
  shows "\<exists>bs n. bits_to_bytes bits = Inr bs \<and> struct_unpack_I bs = Inr n \<and> int n = be_val bits"
proof -
  define c where "c j = take 8 (drop (8 * j) bits)" for j
  have clen: "length (c j) = 8" if "j < 4" for j
    using that len by (simp add: c_def)
  have c01: "\<forall>b \<in> set (c j). b = 0 \<or> b = 1" for j
    using b01 unfolding c_def by (meson in_set_takeD in_set_dropD)
  have rng: "0 \<le> be_val (c j) \<and> be_val (c j) < 256" if "j < 4" for j
    using be_val_bounds [OF c01 [of j]] clen [OF that] by simp
  have "length bits = 8 * 4" using len by simp
  from bits_to_bytes_loop_chunks [OF b01 this]
  have dec: "bits_to_bytes bits = Inr [word_of_int (be_val (c 0)), word_of_int (be_val (c 1)),
       word_of_int (be_val (c 2)), word_of_int (be_val (c 3))]"
    using len by (simp add: bits_to_bytes_def upt_0_4 c_def)
  have "bits = take (8 + (8 + (8 + 8))) bits"
    using len by simp
  then have split: "bits = c 0 @ c 1 @ c 2 @ c 3"
    by (simp only: take_32_split) (simp add: c_def)
  have val: "be_val bits =
      ((be_val (c 0) * 256 + be_val (c 1)) * 256 + be_val (c 2)) * 256 + be_val (c 3)"
    by (subst split) (simp add: be_val_append clen)
  define n where "n = ((unat (word_of_int (be_val (c 0)) :: byte) * 256
       + unat (word_of_int (be_val (c 1)) :: byte)) * 256
       + unat (word_of_int (be_val (c 2)) :: byte)) * 256
       + unat (word_of_int (be_val (c 3)) :: byte)"
  have "struct_unpack_I [word_of_int (be_val (c 0)), word_of_int (be_val (c 1)),
       word_of_int (be_val (c 2)), word_of_int (be_val (c 3))] = Inr n"
    by (simp add: struct_unpack_I_def n_def)
  moreover have "int n = be_val bits"
    using rng [of 0] rng [of 1] rng [of 2] rng [of 3]
    by (simp add: n_def val uint_word_of_int_byte)
  ultimately show ?thesis
    using dec by blast
qed

lemma be_val_lsb: "be_val (map (\<lambda>x. int (lsb x)) xs) = int (be_nat (map lsb xs))"
  using be_val_be_nat [of "map lsb xs"] by (simp add: comp_def)

lemma chunk_of_payload_bits:
  assumes "j < n" and "32 + n * 8 \<le> length frames"
  shows "take 8 (drop (8 * j) (map f (take (n * 8) (drop 32 frames))))
           = map f (take 8 (drop (32 + 8 * j) frames))"
proof -
  have "8 \<le> n * 8 - 8 * j" using assms(1) by simp
  then have "take 8 (take (n * 8 - 8 * j) (drop (8 * j) (drop 32 frames)))
      = take 8 (drop (8 * j) (drop 32 frames))"
    by (simp add: min_def)
  then show ?thesis
    by (simp add: drop_map take_map drop_take add.commute)
qed


section \<open>Strings, framing and silent buffers\<close>

lemma strip_blank: "(strip s = []) = (\<forall>c \<in> set s. isspace c)"
proof
  assume "strip s = []"
  then have all: "\<forall>c \<in> set (dropWhile isspace s). isspace c"
    by (simp add: strip_def dropWhile_eq_Nil_conv)
  have "dropWhile isspace s = []"
  proof (rule ccontr)
    assume ne: "dropWhile isspace s \<noteq> []"
    then have "\<not> isspace (hd (dropWhile isspace s))"
      by (rule hd_dropWhile)
    moreover have "hd (dropWhile isspace s) \<in> set (dropWhile isspace s)"
      using ne by (rule hd_in_set)
    ultimately show False using all by blast
  qed
  then show "\<forall>c \<in> set s. isspace c"
    by (simp add: dropWhile_eq_Nil_conv)
next
  assume "\<forall>c \<in> set s. isspace c"
  then have dw: "dropWhile isspace s = []"
    by (simp add: dropWhile_eq_Nil_conv)
  show "strip s = []"
    unfolding strip_def dw by simp
qed

lemma length_MAGIC: "length MAGIC = 4"
  by (simp add: MAGIC_def)

lemma unframe_cases:
  "unframe payload =
     (if startswith payload MAGIC
      then Inr (take 16 (drop 4 payload), drop 20 payload)
      else Inl (HTTPException 400 ''No hidden payload found''))"
  by (simp add: unframe_def slice_def length_MAGIC SALT_LEN_def)

lemma lsb_zero_uint:
  assumes "(x::byte) AND 1 = 0"
  shows "uint x AND 1 = 0"
proof -
  have "uint (x AND 1) = uint x AND uint (1::byte)"
    by (rule uint_and)
  then show ?thesis
    using assms by simp
qed

lemma all_zero_lsb_bits:
  assumes "\<forall>x \<in> set frames. x AND 1 = 0" "hi \<le> length frames"
  shows "lsb_bits frames lo hi = replicate (hi - lo) 0"
proof (rule nth_equalityI)
  show "length (lsb_bits frames lo hi) = length (replicate (hi - lo) (0::int))"
    by (simp add: lsb_bits_def)
next
  fix k assume "k < length (lsb_bits frames lo hi)"
  then have k: "k < hi - lo" by (simp add: lsb_bits_def)
  then have "lo + k < length frames" using assms(2) by simp
  then have "frames ! (lo + k) AND 1 = 0" using assms(1) by simp
  then have "uint (frames ! (lo + k)) AND 1 = 0"
    by (rule lsb_zero_uint)
  then show "lsb_bits frames lo hi ! k = replicate (hi - lo) 0 ! k"
    using k by (simp add: lsb_bits_def)
qed

lemma bits_to_bytes_zero_32:
  "bits_to_bytes (replicate 32 0) = Inr [0, 0, 0, 0]"
proof -
  have "bits_to_bytes (bytes_to_bits [0, 0, 0, 0]) = Inr [0, 0, 0, 0]"
    by (rule bits_to_bytes_bytes_to_bits)
  moreover have "bytes_to_bits [0, 0, 0, 0] = replicate 32 0"
    by (simp add: byte_bits_unfold eval_nat_numeral)
  ultimately show ?thesis by simp
qed

lemma extract_payload_all_zero:
  assumes "32 \<le> length frames" "\<forall>x \<in> set frames. x AND 1 = 0"
  shows "extract_payload frames = Inr []"
proof -
  have "lsb_bits frames 0 32 = replicate 32 0"
    using all_zero_lsb_bits [OF assms(2,1), of 0] by simp
  moreover have "lsb_bits frames 32 32 = []"
    by (simp add: lsb_bits_def)
  moreover have "bits_to_bytes [] = Inr []"
    by (simp add: bits_to_bytes_def bits_to_bytes_loop.simps)
  ultimately show ?thesis
    using assms(1)
    by (simp add: extract_payload_def bits_to_bytes_zero_32 struct_unpack_I_def)
qed

lemma utf8_decode_error: "utf8_decode bs = Inl e \<Longrightarrow> e = UnicodeDecodeError"
proof (induction bs rule: utf8_decode.induct)
  case (1 bs)
  show ?case
  proof (cases "utf8_next bs")
    case None
    then show ?thesis
      using "1.prems" by (subst (asm) utf8_decode.simps) (simp split: if_splits)
  next
    case (Some cr)
    obtain c r where cr: "cr = (c, r)" by (cases cr)
    have ne: "bs \<noteq> []"
      using Some by (auto simp: utf8_next_def)
    have "utf8_decode r = Inl e"
      using "1.prems" ne Some cr
      by (subst (asm) utf8_decode.simps) (simp split: sum.splits)
    then show ?thesis
      using "1.IH" [OF ne Some cr [symmetric]] by simp
  qed
qed

lemma startswith_MAGIC: "startswith payload MAGIC \<Longrightarrow> MAGIC @ drop 4 payload = payload"
  by (metis startswith_def length_MAGIC append_take_drop_id)

section \<open>Buffers that spell a payload\<close>

lemma lsb_word_of_bit:
  assumes "b = 0 \<or> b = 1"
  shows "uint (word_of_int b :: byte) AND 1 = b"
  using assms by auto

lemma lsb_bits_spelled:
  assumes bits: "\<forall>b \<in> set bits. b = 0 \<or> b = 1" and hi: "hi \<le> length bits"
  shows "lsb_bits (map word_of_int bits @ pad) lo hi = take (hi - lo) (drop lo bits)"
proof (rule nth_equalityI)
  show "length (lsb_bits (map word_of_int bits @ pad) lo hi) = length (take (hi - lo) (drop lo bits))"
    using hi by (simp add: lsb_bits_def)
next
  fix k assume "k < length (lsb_bits (map word_of_int bits @ pad) lo hi)"
  then have k: "k < hi - lo" by (simp add: lsb_bits_def)
  then have j: "lo + k < length bits" using hi by auto
  then have "bits ! (lo + k) \<in> set bits" by simp
  then have b01: "bits ! (lo + k) = 0 \<or> bits ! (lo + k) = 1" using bits by blast
  have "(map word_of_int bits @ pad) ! (lo + k) = (word_of_int (bits ! (lo + k)) :: byte)"
    using j by (simp add: nth_append)
  then have "uint ((map word_of_int bits @ pad) ! (lo + k)) AND 1 = bits ! (lo + k)"
    by (simp only: lsb_word_of_bit [OF b01])
  then show "lsb_bits (map word_of_int bits @ pad) lo hi ! k = take (hi - lo) (drop lo bits) ! k"
    using k j by (simp add: lsb_bits_def)
qed

lemma extract_payload_spelled:
  assumes pre: "struct_pack_I (length payload) = Inr pre"
  shows "extract_payload (map word_of_int (bytes_to_bits (pre @ payload)) @ pad) = Inr payload"
proof -
  have n: "length payload < 2 ^ 32"
    using pre by (auto simp: struct_pack_I_def split: if_splits)
  from struct_unpack_pack [OF n] pre have p4: "length pre = 4"
    and unp: "struct_unpack_I pre = Inr (length payload)" by auto
  let ?bits = "bytes_to_bits (pre @ payload)"
  let ?out = "map word_of_int ?bits @ pad"
  have blen: "length ?bits = 8 * (4 + length payload)"
    by (simp add: length_bytes_to_bits p4)
  have b01: "\<forall>b \<in> set ?bits. b = 0 \<or> b = 1"
    using bytes_to_bits_01 by blast
  have split: "?bits = bytes_to_bits pre @ bytes_to_bits payload"
    by (rule bytes_to_bits_append)
  have plen: "length (bytes_to_bits pre) = 32"
    by (simp add: length_bytes_to_bits p4)
  have "lsb_bits ?out 0 32 = take (32 - 0) (drop 0 ?bits)"
    using blen by (intro lsb_bits_spelled [OF b01]) simp
  then have head: "lsb_bits ?out 0 32 = bytes_to_bits pre"
    using plen by (simp add: split)
  have "lsb_bits ?out 32 (32 + length payload * 8)
          = take (32 + length payload * 8 - 32) (drop 32 ?bits)"
    using blen by (intro lsb_bits_spelled [OF b01]) simp
  then have tail: "lsb_bits ?out 32 (32 + length payload * 8) = bytes_to_bits payload"
    using plen by (simp add: split length_bytes_to_bits)
  have "32 + length payload * 8 \<le> length ?out"
    using blen by simp
  then show ?thesis
    by (simp add: extract_payload_def head tail bits_to_bytes_bytes_to_bits unp Let_def)
qed

lemma ex_stego_hi_spelled:
  "ex_stego_hi = map word_of_int (bytes_to_bits ([0, 0, 0, 23] @ ex_payload_hi)) @ [0, 0, 0, 0]"
  by (simp add: ex_stego_hi_def ex_payload_hi_def byte_bits_unfold)

lemma extract_payload_hi: "extract_payload ex_stego_hi = Inr ex_payload_hi"
proof -
  have "struct_pack_I (length ex_payload_hi) = Inr [0, 0, 0, 23]"
    by (simp add: struct_pack_I_def ex_payload_hi_def)
  from extract_payload_spelled [OF this] show ?thesis
    by (simp only: ex_stego_hi_spelled)
qed

lemma ex_stego_bad_spelled:
  "ex_stego_bad = map word_of_int (bytes_to_bits ([0, 0, 0, 22] @ ex_payload_bad)) @ [0, 0]"
  by (simp add: ex_stego_bad_def ex_payload_bad_def byte_bits_unfold)

lemma extract_payload_bad: "extract_payload ex_stego_bad = Inr ex_payload_bad"
proof -
  have "struct_pack_I (length ex_payload_bad) = Inr [0, 0, 0, 22]"
    by (simp add: struct_pack_I_def ex_payload_bad_def)
  from extract_payload_spelled [OF this] show ?thesis
    by (simp only: ex_stego_bad_spelled)
qed

section \<open>The stand-in library on the examples\<close>

lemma replicate_16: "replicate 16 x = [x, x, x, x, x, x, x, x, x, x, x, x, x, x, x, x]"
  by (simp add: numeral_eq_Suc)

lemma ex_urandom: "os_urandom ex_lib SALT_LEN = ex_salt"
  by (simp add: ex_lib_def SALT_LEN_def ex_salt_def replicate_16)

lemma utf8_encode_pw: "utf8_encode [0x70, 0x77] = Inr [0x70, 0x77]"
  by (simp add: utf8_encode_char_def)

lemma utf8_encode_HI: "utf8_encode [0x48, 0x49] = Inr [0x48, 0x49]"
  by (simp add: utf8_encode_char_def)

lemma ex_derive_key: "derive_key ex_lib [0x70, 0x77] ex_salt = Inr ex_key"
  by (simp add: derive_key_def utf8_encode_char_def ex_lib_def ex_key_def ex_salt_def numeral_eq_Suc)

lemma ex_check_key: "ex_check ex_key = 0xE1"
  by (simp add: ex_check_def ex_key_def ex_salt_def)

lemma ex_Fernet: "Fernet ex_lib ex_key = Inr ex_key"
  by (simp add: ex_lib_def ex_key_def ex_salt_def)

lemma ex_encrypt: "fernet_encrypt ex_lib ex_key data = Inr (0xE1 # data)"
  by (simp add: ex_lib_def ex_check_key)

lemma ex_decrypt: "fernet_decrypt ex_lib ex_key (0xE1 # data) = Inr data"
  by (simp add: ex_lib_def ex_check_key)

lemma utf8_decode_FF: "utf8_decode [0xFF] = Inl UnicodeDecodeError"
  by (simp add: utf8_decode.simps utf8_next_def)

lemma unframe_hi: "unframe ex_payload_hi = Inr (ex_salt, [0xE1, 0x48, 0x49])"
  by (simp add: unframe_cases ex_payload_hi_def startswith_def MAGIC_def ex_salt_def)

lemma unframe_bad: "unframe ex_payload_bad = Inr (ex_salt, [0xE1, 0xFF])"
  by (simp add: unframe_cases ex_payload_bad_def startswith_def MAGIC_def ex_salt_def)

section \<open>UTF-8: decoding inverts encoding\<close>

lemma unat_byte: "n < 256 \<Longrightarrow> unat (of_nat n :: byte) = n"
  by (simp add: unat_of_nat)

lemma digits64:
  fixes c :: nat
  shows "c = 64 * (c div 64) + c mod 64" and "c mod 64 < 64"
    and "c div 64 = 64 * (c div 4096) + c div 64 mod 64" and "c div 64 mod 64 < 64"
    and "c div 4096 = 64 * (c div 262144) + c div 4096 mod 64" and "c div 4096 mod 64 < 64"
proof -
  show "c = 64 * (c div 64) + c mod 64" by simp
  show "c mod 64 < 64" by simp
  have "c div 64 div 64 = c div 4096"
    by (simp add: div_mult2_eq [symmetric])
  then show "c div 64 = 64 * (c div 4096) + c div 64 mod 64"
    using mult_div_mod_eq [of 64 "c div 64"] by simp
  show "c div 64 mod 64 < 64" by simp
  have "c div 4096 div 64 = c div 262144"
    by (simp add: div_mult2_eq [symmetric])
  then show "c div 4096 = 64 * (c div 262144) + c div 4096 mod 64"
    using mult_div_mod_eq [of 64 "c div 4096"] by simp
  show "c div 4096 mod 64 < 64" by simp
qed

lemma arith2:
  assumes "0x80 \<le> (c::nat)" "c < 0x800"
  shows "2 \<le> c div 64" "c div 64 < 32" "c div 64 * 64 + c mod 64 = c"
  using assms digits64(1,2) [of c] by linarith+

lemma value3: "(c div 4096 * 64 + c div 64 mod 64) * 64 + c mod 64 = (c::nat)"
proof -
  have "(c div 4096 * 64 + c div 64 mod 64) * 64 + c mod 64
      = 64 * (64 * (c div 4096) + c div 64 mod 64) + c mod 64"
    by (simp add: mult.commute)
  also have "\<dots> = 64 * (c div 64) + c mod 64"
    by (simp only: digits64(3) [symmetric])
  also have "\<dots> = c"
    by (simp only: digits64(1) [symmetric])
  finally show ?thesis .
qed

lemma value4:
  "((c div 262144 * 64 + c div 4096 mod 64) * 64 + c div 64 mod 64) * 64 + c mod 64 = (c::nat)"
proof -
  have "c div 262144 * 64 + c div 4096 mod 64 = c div 4096"
    using digits64(5) [of c] by (simp add: mult.commute)
  then show ?thesis
    by (simp only: value3)
qed

lemma arith3:
  assumes "0x800 \<le> (c::nat)" "c < 0x10000" "\<not> (0xD800 \<le> c \<and> c \<le> 0xDFFF)"
  shows "c div 4096 < 16"
    and "c div 4096 = 0 \<Longrightarrow> 32 \<le> c div 64 mod 64"
    and "c div 4096 = 13 \<Longrightarrow> c div 64 mod 64 < 32"
  using assms digits64(1,2,3,4) [of c] by linarith+

lemma arith4:
  assumes "0x10000 \<le> (c::nat)" "c < 0x110000"
  shows "c div 262144 \<le> 4"
    and "c div 262144 = 0 \<Longrightarrow> 16 \<le> c div 4096 mod 64"
    and "c div 262144 = 4 \<Longrightarrow> c div 4096 mod 64 < 16"
  using assms digits64 [of c] by linarith+

lemma next_1:
  assumes "c < 0x80"
  shows "utf8_next (of_nat c # rest) = Some (c, rest)"
  using assms by (simp add: utf8_next_def unat_byte)

lemma next_2:
  assumes "0x80 \<le> c" "c < 0x800"
  shows "utf8_next (of_nat (0xC0 + c div 64) # of_nat (0x80 + c mod 64) # rest) = Some (c, rest)"
proof -
  note a = arith2 [OF assms]
  have b0: "unat (of_nat (0xC0 + c div 64) :: byte) = 0xC0 + c div 64"
    using a(2) by (intro unat_byte) simp
  have b1: "unat (of_nat (0x80 + c mod 64) :: byte) = 0x80 + c mod 64"
    by (intro unat_byte) simp
  show ?thesis
    unfolding utf8_next_def continuation_def list.case b0 b1
    using a by simp
qed

lemma next_3:
  assumes "0x800 \<le> c" "c < 0x10000" "\<not> (0xD800 \<le> c \<and> c \<le> 0xDFFF)"
  shows "utf8_next (of_nat (0xE0 + c div 4096) # of_nat (0x80 + c div 64 mod 64)
           # of_nat (0x80 + c mod 64) # rest) = Some (c, rest)"
proof -
  note a = arith3 [OF assms]
  have b0: "unat (of_nat (0xE0 + c div 4096) :: byte) = 0xE0 + c div 4096"
    using a(1) by (intro unat_byte) simp
  have b1: "unat (of_nat (0x80 + c div 64 mod 64) :: byte) = 0x80 + c div 64 mod 64"
    by (intro unat_byte) simp
  have b2: "unat (of_nat (0x80 + c mod 64) :: byte) = 0x80 + c mod 64"
    by (intro unat_byte) simp
  have s: "second_of_3 (0xE0 + c div 4096) (0x80 + c div 64 mod 64)"
    using a by (auto simp: second_of_3_def)
  show ?thesis
    unfolding utf8_next_def continuation_def list.case b0 b1 b2
    using a(1) s value3 [of c] by simp
qed

lemma next_4:
  assumes "0x10000 \<le> c" "c < 0x110000"
  shows "utf8_next (of_nat (0xF0 + c div 262144) # of_nat (0x80 + c div 4096 mod 64)
           # of_nat (0x80 + c div 64 mod 64) # of_nat (0x80 + c mod 64) # rest) = Some (c, rest)"
proof -
  note a = arith4 [OF assms]
  have b0: "unat (of_nat (0xF0 + c div 262144) :: byte) = 0xF0 + c div 262144"
    using a(1) by (intro unat_byte) simp
  have b1: "unat (of_nat (0x80 + c div 4096 mod 64) :: byte) = 0x80 + c div 4096 mod 64"
    by (intro unat_byte) simp
  have b2: "unat (of_nat (0x80 + c div 64 mod 64) :: byte) = 0x80 + c div 64 mod 64"
    by (intro unat_byte) simp
  have b3: "unat (of_nat (0x80 + c mod 64) :: byte) = 0x80 + c mod 64"
    by (intro unat_byte) simp
  have s: "second_of_4 (0xF0 + c div 262144) (0x80 + c div 4096 mod 64)"
    using a by (auto simp: second_of_4_def)
  show ?thesis
  proof -
    have "c div 64 mod 64 < 64" "c mod 64 < 64" by simp_all
    then have m: "c div 64 mod 64 \<le> 63" "c mod 64 \<le> 63" by linarith+
    show ?thesis
      unfolding utf8_next_def continuation_def list.case b0 b1 b2 b3
      using a(1) s value4 [of c] m by simp
  qed
qed

lemma utf8_next_encode_char:
  assumes "utf8_encode_char c = Inr cs"
  shows "cs \<noteq> [] \<and> utf8_next (cs @ rest) = Some (c, rest)"
proof -
  consider (one) "c < 0x80"
    | (two) "0x80 \<le> c" "c < 0x800"
    | (three) "0x800 \<le> c" "c < 0x10000" "\<not> (0xD800 \<le> c \<and> c \<le> 0xDFFF)"
    | (four) "0x10000 \<le> c" "c < 0x110000"
    | (bad) "(0xD800 \<le> c \<and> c \<le> 0xDFFF) \<or> 0x110000 \<le> c"
    by linarith
  then show ?thesis
  proof cases
    case one
    then have "cs = [of_nat c]"
      using assms by (simp add: utf8_encode_char_def)
    then show ?thesis using next_1 [OF one] by simp
  next
    case two
    then have "cs = [of_nat (0xC0 + c div 64), of_nat (0x80 + c mod 64)]"
      using assms by (simp add: utf8_encode_char_def)
    then show ?thesis using next_2 [OF two] by simp
  next
    case three
    then have "cs = [of_nat (0xE0 + c div 4096), of_nat (0x80 + c div 64 mod 64),
        of_nat (0x80 + c mod 64)]"
      using assms by (auto simp: utf8_encode_char_def split: if_splits)
    then show ?thesis using next_3 [OF three] by simp
  next
    case four
    then have "cs = [of_nat (0xF0 + c div 262144), of_nat (0x80 + c div 4096 mod 64),
        of_nat (0x80 + c div 64 mod 64), of_nat (0x80 + c mod 64)]"
      using assms by (simp add: utf8_encode_char_def)
    then show ?thesis using next_4 [OF four] by simp
  next
    case bad
    then show ?thesis
      using assms by (auto simp: utf8_encode_char_def)
  qed
qed

lemma utf8_decode_encode:
  "utf8_encode s = Inr bs \<Longrightarrow> utf8_decode bs = Inr s"
proof (induction s arbitrary: bs)
  case Nil
  then show ?case by (simp add: utf8_decode.simps)
next
  case (Cons c s)
  from Cons.prems obtain cs rest where cs: "utf8_encode_char c = Inr cs"
    and rest: "utf8_encode s = Inr rest" and bs: "bs = cs @ rest"
    by (auto split: sum.splits)
  have ne: "cs \<noteq> []" and nx: "utf8_next (cs @ rest) = Some (c, rest)"
    using utf8_next_encode_char [OF cs, of rest] by blast+
  show ?case
    unfolding bs
    by (subst utf8_decode.simps) (simp add: ne nx Cons.IH [OF rest])
qed

section \<open>The codec claims\<close>

text \<open>
  Claim C2 (bit-locality). Whenever \<^verbatim>\<open>_embed_payload\<close> accepts a sample buffer and a payload,
  the output has the length of the input, every byte at an index from \<open>8 * (4 + len(payload))\<close>
  on is the input byte, and every byte below that index agrees with the input byte on all
  bits above the least-significant one.
\<close>

theorem embed_payload_bit_locality:
  assumes "embed_payload frames payload = Inr out"
  shows "length out = length frames \<and>
         (\<forall>i. 8 * (4 + length payload) \<le> i \<and> i < length frames \<longrightarrow> out ! i = frames ! i) \<and>
         (\<forall>i < 8 * (4 + length payload). \<forall>n. 0 < n \<longrightarrow> bit (out ! i) n = bit (frames ! i) n)"
proof -
  have n: "length payload < 2 ^ 32" and cap: "8 * (4 + length payload) \<le> length frames"
    using embed_payload_Inr [OF assms] by simp_all
  from embed_payload_ok [OF n cap] obtain pre where
    out: "\<forall>j < length frames. out ! j =
              (if j < 8 * (4 + length payload)
               then set_lsb (frames ! j) (bytes_to_bits (pre @ payload) ! j) else frames ! j)"
    and len: "length out = length frames" and pre: "length pre = 4"
    using assms by auto
  have hi: "bit (out ! i) n = bit (frames ! i) n" if i: "i < 8 * (4 + length payload)" and "0 < n" for i n
  proof -
    have "i < length (bytes_to_bits (pre @ payload))"
      using i by (simp add: length_bytes_to_bits pre)
    then have "bytes_to_bits (pre @ payload) ! i \<in> set (bytes_to_bits (pre @ payload))"
      by (rule nth_mem)
    then have b01: "bytes_to_bits (pre @ payload) ! i = 0 \<or> bytes_to_bits (pre @ payload) ! i = 1"
      by (rule bytes_to_bits_01)
    have "out ! i = set_lsb (frames ! i) (bytes_to_bits (pre @ payload) ! i)"
      using out i cap by simp
    then show ?thesis
      by (simp only: bit_set_lsb [OF b01 \<open>0 < n\<close>])
  qed
  show ?thesis
    using len out hi by simp
qed

theorem embed_payload_bit_locality_witness:
  "embed_payload ex_frames [0x41] = Inr ex_stego \<and> length ex_stego = length ex_frames \<and>
   ex_stego ! 41 = ex_frames ! 41 \<and> bit (ex_stego ! 3) 5 = bit (ex_frames ! 3) 5"
proof -
  note loc = embed_payload_bit_locality [OF ex_embed]
  have "ex_stego ! 41 = ex_frames ! 41"
    using loc by (simp add: ex_frames_def)
  moreover have "bit (ex_stego ! 3) 5 = bit (ex_frames ! 3) 5"
    using loc by simp
  ultimately show ?thesis
    using loc ex_embed by simp
qed

text \<open>
  Claim C3 (codec round-trip), as amended. For every payload shorter than \<open>2 ^ 32\<close> bytes and
  every sample buffer of at least \<open>8 * (4 + len(payload))\<close> bytes, \<^verbatim>\<open>_embed_payload\<close> succeeds
  and \<^verbatim>\<open>_extract_payload\<close> of its result is the payload. The bound on the payload is needed:
  the length prefix is packed with \<^verbatim>\<open>struct.pack(">I", ...)\<close> before anything else.
\<close>

theorem embed_extract_payload_roundtrip:
  assumes "length payload < 2 ^ 32"
    and "8 * (4 + length payload) \<le> length frames"
  shows "\<exists>stego. embed_payload frames payload = Inr stego \<and> extract_payload stego = Inr payload"
  using assms by (rule embed_payload_then_extract)

theorem embed_extract_payload_roundtrip_witness:
  "\<exists>stego. embed_payload ex_frames [0x41] = Inr stego \<and> extract_payload stego = Inr [0x41]"
  using embed_extract_payload_roundtrip [of "[0x41]" ex_frames]
  by (simp add: ex_frames_def)

text \<open>
  The claim as stated, for every payload, fails at a payload of \<open>2 ^ 32\<close> bytes with a buffer
  of \<open>8 * (4 + 2 ^ 32)\<close> bytes: the buffer is large enough, and the embedding raises
  \<^verbatim>\<open>struct.error\<close>.
\<close>

theorem embed_extract_payload_roundtrip_counterexample:
  "8 * (4 + length (replicate (2 ^ 32) (0::byte))) \<le> length (replicate (8 * (4 + 2 ^ 32)) (0::byte)) \<and>
   embed_payload (replicate (8 * (4 + 2 ^ 32)) 0) (replicate (2 ^ 32) 0) = Inl StructError"
  by (simp add: embed_payload_def struct_pack_I_def)

text \<open>
  Claim C5 (capacity boundary), as amended. For every payload shorter than \<open>2 ^ 32\<close> bytes,
  \<^verbatim>\<open>_embed_payload\<close> fails with the capacity error ("Audio too small for payload") exactly
  when the bit count \<open>8 * (4 + len(payload))\<close> exceeds the buffer length, and succeeds exactly
  when it does not; in particular it succeeds when the two are equal.
\<close>

theorem embed_payload_capacity:
  assumes n: "length payload < 2 ^ 32"
  shows "(embed_payload frames payload = Inl (HTTPException 400 ''Audio too small for payload''))
           = (length frames < 8 * (4 + length payload)) \<and>
         ((\<exists>out. embed_payload frames payload = Inr out) = (8 * (4 + length payload) \<le> length frames)) \<and>
         spec_error_kind (HTTPException 400 ''Audio too small for payload'') = Some CapacityError"
proof (cases "8 * (4 + length payload) \<le> length frames")
  case True
  then show ?thesis
    using embed_payload_ok [OF n True] by (auto simp: spec_error_kind_def)
next
  case False
  obtain pre where pre: "struct_pack_I (length payload) = Inr pre" "length pre = 4"
    using struct_unpack_pack [OF n] by blast
  have "embed_payload frames payload = Inl (HTTPException 400 ''Audio too small for payload'')"
    using False by (simp add: embed_payload_def pre length_bytes_to_bits Let_def)
  then show ?thesis
    using False by (simp add: spec_error_kind_def)
qed

theorem embed_payload_capacity_witness:
  "embed_payload (take 39 ex_frames) [0x41] = Inl (HTTPException 400 ''Audio too small for payload'') \<and>
   (\<exists>out. embed_payload (take 40 ex_frames) [0x41] = Inr out)"
  using embed_payload_capacity [of "[0x41]" "take 39 ex_frames"]
    embed_payload_capacity [of "[0x41]" "take 40 ex_frames"]
  by (simp add: ex_frames_def)

text \<open>
  The claim as stated fails at a payload of \<open>2 ^ 32\<close> bytes and an empty buffer: the bit count
  exceeds the buffer length, and the failure is \<^verbatim>\<open>struct.error\<close>, not the capacity error.
\<close>

theorem embed_payload_capacity_counterexample:
  "length ([]::bytes) < 8 * (4 + length (replicate (2 ^ 32) (0::byte))) \<and>
   embed_payload [] (replicate (2 ^ 32) 0) = Inl StructError"
  by (simp add: embed_payload_def struct_pack_I_def)

text \<open>
  Claim C4 (extraction). \<^verbatim>\<open>_extract_payload\<close> fails with the capacity error
  ("Audio too short") on fewer than 32 samples; otherwise, with \<open>L\<close> the big-endian value of
  the least-significant bits of the first 32 samples, it fails with the corruption error
  ("Corrupted or incomplete data") when \<open>32 + 8 * L\<close> exceeds the number of samples, and
  otherwise returns the \<open>L\<close> bytes spelled by the next \<open>8 * L\<close> least-significant bits, with
  no other check.
\<close>

theorem extract_payload_spec:
  "extract_payload frames = spec_extract frames \<and>
   spec_error_kind (HTTPException 400 ''Audio too short'') = Some CapacityError \<and>
   spec_error_kind (HTTPException 400 ''Corrupted or incomplete data'') = Some CorruptionError"
proof -
  have "extract_payload frames = spec_extract frames"
  proof (cases "length frames < 32")
    case True
    then show ?thesis by (simp add: extract_payload_def spec_extract_def)
  next
    case False
    let ?f = "\<lambda>x. int (lsb x)"
    have head: "lsb_bits frames 0 32 = map ?f (take 32 frames)"
      using False lsb_bits_map [of 32 frames 0] by simp
    have "length (map ?f (take 32 frames)) = 32" using False by simp
    from unpack_prefix [OF lsb_map_01 this] obtain bs n where
      bs: "bits_to_bytes (map ?f (take 32 frames)) = Inr bs" "struct_unpack_I bs = Inr n"
      and n: "int n = be_val (map ?f (take 32 frames))"
      by blast
    have n_eq: "n = spec_length frames"
      using n by (simp add: be_val_lsb spec_length_def)
    show ?thesis
    proof (cases "32 + n * 8 > length frames")
      case True
      then show ?thesis
        using False n_eq [symmetric]
        by (simp add: extract_payload_def spec_extract_def head bs Let_def mult.commute)
    next
      case fits: False
      let ?pb = "map ?f (take (n * 8) (drop 32 frames))"
      have tail: "lsb_bits frames 32 (32 + n * 8) = ?pb"
        using fits lsb_bits_map [of "32 + n * 8" frames 32] by simp
      have plen: "length ?pb = 8 * n" using fits by simp
      have "bits_to_bytes ?pb = bits_to_bytes_loop ?pb"
        using plen by (simp add: bits_to_bytes_def)
      also have "\<dots> = Inr (map (\<lambda>j. word_of_int (be_val (take 8 (drop (8 * j) ?pb)))) [0..<n])"
        by (rule bits_to_bytes_loop_chunks [OF lsb_map_01 plen])
      also have "map (\<lambda>j. word_of_int (be_val (take 8 (drop (8 * j) ?pb))) :: byte) [0..<n]
          = map (spec_byte frames) [0..<n]"
      proof (rule map_cong [OF refl])
        fix j assume "j \<in> set [0..<n]"
        then have j: "j < n" by simp
        have "take 8 (drop (8 * j) ?pb) = map ?f (take 8 (drop (32 + 8 * j) frames))"
          using fits by (intro chunk_of_payload_bits [OF j]) simp
        then show "(word_of_int (be_val (take 8 (drop (8 * j) ?pb))) :: byte) = spec_byte frames j"
          by (simp only: be_val_lsb spec_byte_def) simp
      qed
      finally have "bits_to_bytes ?pb = Inr (map (spec_byte frames) [0..<n])" .
      then show ?thesis
        using False fits n_eq [symmetric]
        by (simp add: extract_payload_def spec_extract_def head bs tail Let_def mult.commute)
    qed
  qed
  then show ?thesis
    by (simp add: spec_error_kind_def)
qed

section \<open>The claims about the two operations\<close>

text \<open>
  Claim C1 (round-trip), as amended. Take a message that is not blank (not empty once
  whitespace is stripped) and encodes to UTF-8, a non-empty passcode that encodes to UTF-8,
  and a library whose \<^verbatim>\<open>os.urandom(16)\<close> returns 16 bytes, whose Fernet constructor accepts
  the derived key, and whose decryption under that key returns the plaintext of the token
  it made. If the framed payload, \<open>20 + len(token)\<close> bytes, is shorter than \<open>2 ^ 32\<close> bytes
  and the buffer has at least \<open>32 + 8 * (20 + len(token))\<close> samples, then \<^verbatim>\<open>embed\<close> succeeds
  and \<^verbatim>\<open>extract\<close> of its result with the same passcode returns the message.
\<close>

theorem embed_extract_message_roundtrip:
  assumes msg: "strip message \<noteq> []"
    and enc_m: "utf8_encode message = Inr plaintext"
    and pc: "passcode \<noteq> []"
    and enc_p: "utf8_encode passcode = Inr password"
    and salt: "length (os_urandom L SALT_LEN) = SALT_LEN"
    and fernet: "Fernet L (urlsafe_b64encode L
        (pbkdf2_hmac_sha256 L 32 (os_urandom L SALT_LEN) PBKDF2_ITERS password)) = Inr f"
    and enc: "fernet_encrypt L f plaintext = Inr token"
    and dec: "fernet_decrypt L f token = Inr plaintext"
    and cap: "32 + 8 * (20 + length token) \<le> length frames"
    and bound: "20 + length token < 2 ^ 32"
  shows "\<exists>stego. embed L frames message passcode = Inr stego \<and>
           extract_message L stego passcode = Inr message"
proof -
  define salt where "salt = os_urandom L SALT_LEN"
  define key where "key = urlsafe_b64encode L (pbkdf2_hmac_sha256 L 32 salt PBKDF2_ITERS password)"
  define payload where "payload = MAGIC @ salt @ token"
  have slen: "length salt = 16"
    using salt by (simp add: salt_def SALT_LEN_def)
  have dk: "derive_key L passcode salt = Inr key"
    using pc enc_p by (simp add: derive_key_def key_def)
  have fk: "Fernet L key = Inr f"
    using fernet by (simp add: key_def salt_def)
  have emb: "embed L frames message passcode = embed_payload frames payload"
    using msg by (simp add: embed_def Let_def dk fk enc_m enc salt_def [symmetric] payload_def)
  have plen: "length payload = 20 + length token"
    by (simp add: payload_def length_MAGIC slen)
  have "length payload < 2 ^ 32" and "8 * (4 + length payload) \<le> length frames"
    using bound cap by (simp_all add: plen)
  from embed_payload_then_extract [OF this] obtain stego where
    stego: "embed_payload frames payload = Inr stego" "extract_payload stego = Inr payload"
    by blast
  have sw: "startswith payload MAGIC"
    by (simp add: startswith_def payload_def)
  have "take 16 (drop 4 payload) = salt" and "drop 20 payload = token"
    using slen by (simp_all add: payload_def length_MAGIC)
  then have unf: "unframe payload = Inr (salt, token)"
    using sw by (simp add: unframe_cases)
  have "decrypt_message L passcode salt token = Inr message"
    by (simp add: decrypt_message_def dk fk dec utf8_decode_encode [OF enc_m])
  then have "extract_message L stego passcode = Inr message"
    by (simp add: extract_message_def stego(2) unf)
  then show ?thesis
    using emb stego(1) by simp
qed

theorem embed_extract_message_roundtrip_witness:
  "\<exists>stego. embed ex_lib (replicate 300 0) [0x48, 0x49] [0x70, 0x77] = Inr stego \<and>
           extract_message ex_lib stego [0x70, 0x77] = Inr [0x48, 0x49]"
proof -
  have "strip [0x48, 0x49] \<noteq> []"
    by (simp add: strip_def isspace_def)
  moreover have "Fernet ex_lib (urlsafe_b64encode ex_lib
        (pbkdf2_hmac_sha256 ex_lib 32 (os_urandom ex_lib SALT_LEN) PBKDF2_ITERS [0x70, 0x77])) = Inr ex_key"
    using ex_derive_key ex_Fernet by (simp add: derive_key_def utf8_encode_char_def ex_urandom)
  moreover have "length (os_urandom ex_lib SALT_LEN) = SALT_LEN"
    by (simp add: ex_lib_def)
  ultimately show ?thesis
    using embed_extract_message_roundtrip [of "[0x48, 0x49]" "[0x48, 0x49]" "[0x70, 0x77]"
        "[0x70, 0x77]" ex_lib ex_key "[0xE1, 0x48, 0x49]" "replicate 300 0"]
      utf8_encode_HI utf8_encode_pw ex_encrypt [of "[0x48, 0x49]"] ex_decrypt [of "[0x48, 0x49]"]
    by simp
qed

text \<open>
  The claim as stated, for every non-empty message, fails at the message of one space,
  which is not empty and is UTF-8: \<^verbatim>\<open>embed\<close> rejects it with "Message is required", so
  there is no embedded buffer to extract from.
\<close>

theorem embed_extract_message_roundtrip_counterexample:
  "[0x20] \<noteq> ([] :: str) \<and> utf8_encode [0x20] = Inr [0x20] \<and>
   embed ex_lib (replicate 300 0) [0x20] [0x70, 0x77] = Inl (HTTPException 400 ''Message is required'')"
  by (simp add: embed_def strip_def isspace_def utf8_encode_char_def)

text \<open>
  Claim C6 (plaintext that is not UTF-8), as amended. Whenever the extraction reaches the
  decryption, the decryption succeeds, and the plaintext is not valid UTF-8, the operation
  fails with the error of a failed decryption ("Invalid passcode or payload", the
  specification's AuthenticationError): \<open>UnicodeDecodeError\<close> is a \<open>ValueError\<close>, which the
  handler around the decryption catches.
\<close>

theorem extract_invalid_utf8:
  assumes "extract_payload frames = Inr payload"
    and "unframe payload = Inr (salt, token)"
    and "derive_key L passcode salt = Inr key"
    and "Fernet L key = Inr f"
    and "fernet_decrypt L f token = Inr plaintext"
    and "utf8_decode plaintext = Inl e"
  shows "extract_message L frames passcode = Inl (HTTPException 400 ''Invalid passcode or payload'') \<and>
         spec_error_kind (HTTPException 400 ''Invalid passcode or payload'') = Some AuthenticationError"
proof -
  have "e = UnicodeDecodeError"
    using assms(6) by (rule utf8_decode_error)
  then have "decrypt_message L passcode salt token = Inl UnicodeDecodeError"
    using assms by (simp add: decrypt_message_def)
  then show ?thesis
    using assms(1,2) by (simp add: extract_message_def spec_error_kind_def)
qed

theorem extract_invalid_utf8_witness:
  "extract_message ex_lib ex_stego_bad [0x70, 0x77]
     = Inl (HTTPException 400 ''Invalid passcode or payload'')"
  using extract_invalid_utf8 [OF extract_payload_bad unframe_bad ex_derive_key ex_Fernet
      ex_decrypt utf8_decode_FF]
  by simp

text \<open>
  The claim as stated, a FormatError and not an AuthenticationError, fails on \<open>ex_stego_bad\<close>
  with the passcode \<^verbatim>\<open>"pw"\<close>: the payload is framed, the token decrypts to the byte
  \<open>0xFF\<close>, and the failure is the one of a failed decryption.
\<close>

theorem extract_invalid_utf8_counterexample:
  "extract_payload ex_stego_bad = Inr ex_payload_bad \<and>
   unframe ex_payload_bad = Inr (ex_salt, [0xE1, 0xFF]) \<and>
   derive_key ex_lib [0x70, 0x77] ex_salt = Inr ex_key \<and>
   Fernet ex_lib ex_key = Inr ex_key \<and>
   fernet_decrypt ex_lib ex_key [0xE1, 0xFF] = Inr [0xFF] \<and>
   utf8_decode [0xFF] = Inl UnicodeDecodeError \<and>
   extract_message ex_lib ex_stego_bad [0x70, 0x77]
     = Inl (HTTPException 400 ''Invalid passcode or payload'') \<and>
   spec_error_kind (HTTPException 400 ''Invalid passcode or payload'') \<noteq> Some FormatError"
  by (simp add: extract_payload_bad unframe_bad ex_derive_key ex_Fernet ex_decrypt utf8_decode_FF
      extract_message_def decrypt_message_def spec_error_kind_def)

text \<open>
  Claim C7 (derivation determinism). The key \<^verbatim>\<open>derive_key\<close> returns for a non-empty passcode
  and a salt is the same in any two runs whose key-derivation function and base64 encoding
  are the same, whatever else differs between the runs (the random bytes, the Fernet
  objects); for a passcode that encodes to UTF-8 it is the encoded PBKDF2 output for that
  passcode, that salt, 32 bytes and 390000 iterations.
\<close>

theorem derive_key_deterministic:
  assumes "passcode \<noteq> []"
    and "pbkdf2_hmac_sha256 L = pbkdf2_hmac_sha256 L'"
    and "urlsafe_b64encode L = urlsafe_b64encode L'"
  shows "derive_key L passcode salt = derive_key L' passcode salt \<and>
         (\<forall>password. utf8_encode passcode = Inr password \<longrightarrow>
            derive_key L passcode salt =
              Inr (urlsafe_b64encode L (pbkdf2_hmac_sha256 L 32 salt PBKDF2_ITERS password)))"
  using assms by (auto simp: derive_key_def split: sum.splits)

theorem derive_key_deterministic_witness:
  "derive_key ex_lib [0x70, 0x77] ex_salt
     = derive_key (ex_lib\<lparr>os_urandom := \<lambda>n. replicate n 0\<rparr>) [0x70, 0x77] ex_salt \<and>
   derive_key ex_lib [0x70, 0x77] ex_salt = Inr ex_key"
  using derive_key_deterministic [of "[0x70, 0x77]" ex_lib "ex_lib\<lparr>os_urandom := \<lambda>n. replicate n 0\<rparr>" ex_salt]
    ex_derive_key
  by simp

text \<open>
  Claim C8 (unframing), as amended. The marker check fails with "No hidden payload found"
  (FormatError) exactly when the payload does not start with the marker; a buffer of at
  least 32 samples whose least-significant bits are all zero extracts the empty payload and
  fails in this way. When the payload starts with the marker, the salt is the slice
  \<open>payload[4:20]\<close>, the token is \<open>payload[20:]\<close>, the payload is the marker, the salt and the
  token in this order, and the salt has \<open>min 16 (len(payload) - 4)\<close> bytes: sixteen only when
  the payload has at least twenty.
\<close>

theorem unframe_marker_salt_token:
  "(unframe payload = Inl (HTTPException 400 ''No hidden payload found''))
      = (\<not> startswith payload MAGIC) \<and>
   spec_error_kind (HTTPException 400 ''No hidden payload found'') = Some FormatError \<and>
   (startswith payload MAGIC \<longrightarrow>
      (\<exists>salt token. unframe payload = Inr (salt, token) \<and> payload = MAGIC @ salt @ token \<and>
         salt = take 16 (drop 4 payload) \<and> token = drop 20 payload \<and>
         length salt = min 16 (length payload - 4))) \<and>
   (32 \<le> length frames \<and> (\<forall>x \<in> set frames. x AND 1 = 0) \<longrightarrow>
      extract_payload frames = Inr [] \<and>
      extract_message L frames passcode = Inl (HTTPException 400 ''No hidden payload found''))"
proof (intro conjI impI)
  show "(unframe payload = Inl (HTTPException 400 ''No hidden payload found''))
      = (\<not> startswith payload MAGIC)"
    by (simp add: unframe_cases)
  show "spec_error_kind (HTTPException 400 ''No hidden payload found'') = Some FormatError"
    by (simp add: spec_error_kind_def)
next
  assume sw: "startswith payload MAGIC"
  have "take 16 (drop 4 payload) @ drop 20 payload = drop 4 payload"
  proof -
    have "drop 20 payload = drop 16 (drop 4 payload)" by simp
    then show ?thesis by (simp only: append_take_drop_id)
  qed
  then have "payload = MAGIC @ take 16 (drop 4 payload) @ drop 20 payload"
    using startswith_MAGIC [OF sw] by simp
  then show "\<exists>salt token. unframe payload = Inr (salt, token) \<and> payload = MAGIC @ salt @ token \<and>
         salt = take 16 (drop 4 payload) \<and> token = drop 20 payload \<and>
         length salt = min 16 (length payload - 4)"
    using sw by (simp add: unframe_cases min_def)
next
  assume z: "32 \<le> length frames \<and> (\<forall>x \<in> set frames. x AND 1 = 0)"
  then show e: "extract_payload frames = Inr []"
    by (simp add: extract_payload_all_zero)
  have "\<not> startswith [] MAGIC"
    by (simp add: startswith_def MAGIC_def)
  then show "extract_message L frames passcode = Inl (HTTPException 400 ''No hidden payload found'')"
    by (simp add: extract_message_def e unframe_cases)
qed

theorem unframe_marker_salt_token_witness:
  "unframe [0x58, 0x59] = Inl (HTTPException 400 ''No hidden payload found'') \<and>
   unframe ex_payload_hi = Inr (ex_salt, [0xE1, 0x48, 0x49]) \<and>
   extract_message ex_lib (replicate 40 0) [0x70, 0x77]
     = Inl (HTTPException 400 ''No hidden payload found'')"
proof -
  note t = unframe_marker_salt_token [of "[0x58, 0x59]" "replicate 40 0" ex_lib "[0x70, 0x77]"]
  have "\<not> startswith [0x58, 0x59] MAGIC"
    by (simp add: startswith_def MAGIC_def)
  then have "unframe [0x58, 0x59] = Inl (HTTPException 400 ''No hidden payload found'')"
    using t by blast
  moreover have "extract_message ex_lib (replicate 40 0) [0x70, 0x77]
     = Inl (HTTPException 400 ''No hidden payload found'')"
    using t by simp
  ultimately show ?thesis
    using unframe_hi by simp
qed

text \<open>
  The claim as stated, a salt of exactly sixteen bytes, fails on the five-byte payload
  \<^verbatim>\<open>b"STEG\\x01"\<close>, which a buffer of 72 samples can carry: its salt is the single byte
  after the marker and its token is empty.
\<close>

theorem unframe_marker_salt_token_counterexample:
  "extract_payload (map word_of_int (bytes_to_bits [0, 0, 0, 5, 0x53, 0x54, 0x45, 0x47, 0x01]))
     = Inr [0x53, 0x54, 0x45, 0x47, 0x01] \<and>
   startswith [0x53, 0x54, 0x45, 0x47, 0x01] MAGIC \<and>
   unframe [0x53, 0x54, 0x45, 0x47, 0x01] = Inr ([0x01], []) \<and>
   length [0x01 :: byte] \<noteq> 16"
proof -
  have "struct_pack_I (length [0x53, 0x54, 0x45, 0x47, 0x01 :: byte]) = Inr [0, 0, 0, 5]"
    by (simp add: struct_pack_I_def)
  from extract_payload_spelled [OF this, of "[]"]
  have "extract_payload (map word_of_int (bytes_to_bits [0, 0, 0, 5, 0x53, 0x54, 0x45, 0x47, 0x01]))
     = Inr [0x53, 0x54, 0x45, 0x47, 0x01]"
    by simp
  then show ?thesis
    by (simp add: unframe_cases startswith_def MAGIC_def)
qed

text \<open>
  Claim C9 (blank messages). \<^verbatim>\<open>embed\<close> rejects with "Message is required" every message made
  of whitespace characters only, the empty one included, whatever the buffer, the passcode
  and the library are: no key is derived and nothing is encrypted before the check.
\<close>

theorem embed_rejects_blank_message:
  assumes "\<forall>c \<in> set message. isspace c"
  shows "embed L frames message passcode = Inl (HTTPException 400 ''Message is required'') \<and>
         spec_error_kind (HTTPException 400 ''Message is required'') = Some InvalidInput"
  using assms by (simp add: embed_def strip_blank spec_error_kind_def)

theorem embed_rejects_blank_message_witness:
  "embed ex_lib [] [0x20, 0x0A, 0x3000] [] = Inl (HTTPException 400 ''Message is required'')"
  using embed_rejects_blank_message [of "[0x20, 0x0A, 0x3000]" ex_lib "[]" "[]"]
  by (simp add: isspace_def)

text \<open>
  Claim C10 (empty passcode at extraction). On a buffer whose payload starts with the
  marker, the extraction with an empty passcode fails with "Invalid passcode or payload"
  (AuthenticationError): \<^verbatim>\<open>derive_key\<close> raises \<open>ValueError\<close> ("Passcode is required"), and
  the handler around the decryption catches it.
\<close>

theorem extract_empty_passcode:
  assumes "extract_payload frames = Inr payload" and "startswith payload MAGIC"
  shows "derive_key L [] (take 16 (drop 4 payload)) = Inl (ValueError ''Passcode is required'') \<and>
         extract_message L frames [] = Inl (HTTPException 400 ''Invalid passcode or payload'') \<and>
         spec_error_kind (HTTPException 400 ''Invalid passcode or payload'') = Some AuthenticationError"
  using assms
  by (simp add: extract_message_def unframe_cases decrypt_message_def derive_key_def
      spec_error_kind_def)

theorem extract_empty_passcode_witness:
  "extract_payload ex_stego_hi = Inr ex_payload_hi \<and> startswith ex_payload_hi MAGIC \<and>
   extract_message ex_lib ex_stego_hi [] = Inl (HTTPException 400 ''Invalid passcode or payload'')"
proof -
  have sw: "startswith ex_payload_hi MAGIC"
    by (simp add: startswith_def MAGIC_def ex_payload_hi_def)
  show ?thesis
    using extract_empty_passcode [OF extract_payload_hi sw, of ex_lib] extract_payload_hi sw
    by simp
qed

end
